theory Spec2Isabelle
  imports Main "HOL-Library.AList" "HOL-Library.Multiset"
begin

section \<open>JavaScript values\<close>

text \<open>
  The query type \<open>Q\<close> of \<open>SubscriptionManager<T, Q>\<close> is a type parameter, and
  \<open>defaultQueryToString(q: any)\<close> inspects its argument at run time, so queries are
  modelled as JavaScript values. Only what the source inspects is kept: the type tag
  (\<open>typeof\<close>), truthiness (\<open>!q\<close>), the \<open>key\<close> attribute, and whether the value has an
  own \<open>toString\<close> method and what that method returns. Numbers are integers plus NaN
  (only \<open>0\<close> and NaN are falsy, nothing else about numbers is used). An object is
  \<open>JObject k ts\<close>: \<open>k\<close> is what \<open>q.key\<close> evaluates to (\<open>JUndefined\<close> when the attribute is
  absent) and \<open>ts\<close> is \<open>Some s\<close> when the object has an own \<open>toString\<close> method, which
  returns \<open>s\<close>, and \<open>None\<close> when it has none. Primitive values have neither a \<open>key\<close>
  attribute nor an own \<open>toString\<close> (the built-in prototypes are taken unmodified). An
  object inherits from \<open>Object.prototype\<close>, has no own properties besides these two, and
  is not a function: a query cannot be called.
\<close>

datatype jsval =
    JUndefined
  | JNull
  | JBool bool
  | JNumber int
  | JNaN
  | JString string
  | JObject jsval "string option"

text \<open>\<open>!q\<close> is \<open>\<not> truthy q\<close>.\<close>

fun truthy :: "jsval \<Rightarrow> bool" where
  "truthy JUndefined = False"
| "truthy JNull = False"
| "truthy (JBool b) = b"
| "truthy (JNumber n) = (n \<noteq> 0)"
| "truthy JNaN = False"
| "truthy (JString s) = (s \<noteq> [])"
| "truthy (JObject k ts) = True"

text \<open>Every \<open>throw\<close> of the source is a value of this type.\<close>

datatype error =
    FalseyQuery          \<comment> \<open>\<open>Unable to convert falsey query to string\<close>\<close>
  | NoStringForm         \<comment> \<open>\<open>Unable to convert query to string\<close>\<close>
  | OutsideContext string  \<comment> \<open>\<open>Called '<name>' outside a valid subscription context\<close>\<close>
  | MissingContext string  \<comment> \<open>\<open>Unable to locate watched context '<id>'\<close>\<close>
  | Thrown string          \<comment> \<open>an error raised by an injected callback\<close>
  | TypeError              \<comment> \<open>\<open>TypeError: ... hasOwnProperty is not a function\<close>\<close>

subsection \<open>\<open>defaultQueryToString\<close>\<close>

text \<open>\<open>q.key\<close> and \<open>q.hasOwnProperty('toString')\<close> for a truthy, non-string \<open>q\<close>.\<close>

fun key_of :: "jsval \<Rightarrow> jsval" where
  "key_of (JObject k ts) = k"
| "key_of q = JUndefined"

fun own_toString :: "jsval \<Rightarrow> string option" where
  "own_toString (JObject k ts) = ts"
| "own_toString q = None"

definition defaultQueryToString :: "jsval \<Rightarrow> error + string" where
  "defaultQueryToString q =
     (case q of
        JString s \<Rightarrow> Inr s
      | JUndefined \<Rightarrow> Inr []
      | _ \<Rightarrow>
          if \<not> truthy q then Inl FalseyQuery
          else (case key_of q of
                  JString k \<Rightarrow> Inr k
                | _ \<Rightarrow> (case own_toString q of
                          Some s \<Rightarrow> Inr s
                        | None \<Rightarrow> Inl NoStringForm)))"

section \<open>Objects used as dictionaries\<close>

text \<open>
  The maps of the manager are plain objects created by \<open>{}\<close>. An object is modelled by the
  list of its own properties in creation order; a name is bound to the value of its
  first pair.

  \<open>Object.keys\<close> lists array indices first, in ascending numeric order, and then the
  other names in creation order. An array index is the decimal numeral, without leading
  zeros, of a number below \<open>2^32 - 1\<close>. \<open>Object_entries ob\<close> is the list of the pairs
  \<open>(k, ob[k])\<close> for \<open>k\<close> in \<open>Object.keys(ob)\<close>: what a loop over \<open>Object.keys(ob)\<close> that
  reads \<open>ob[k]\<close> visits.
\<close>

type_synonym 'v obj = "(string \<times> 'v) list"

definition is_digit :: "char \<Rightarrow> bool" where
  "is_digit c = (48 \<le> (of_char c :: nat) \<and> (of_char c :: nat) \<le> 57)"

definition numeric_value :: "string \<Rightarrow> nat" where
  "numeric_value k = foldl (\<lambda>n c. 10 * n + (of_char c - 48)) 0 k"

definition is_array_index :: "string \<Rightarrow> bool" where
  "is_array_index k =
     (case k of
        [] \<Rightarrow> False
      | c # cs \<Rightarrow> list_all is_digit k \<and> (if cs = [] then True else c \<noteq> CHR ''0'')
                 \<and> numeric_value k < 4294967295)"

definition Object_entries :: "'v obj \<Rightarrow> (string \<times> 'v) list" where
  "Object_entries ob =
     (let ps = AList.clearjunk ob
      in sort_key (\<lambda>p. numeric_value (fst p)) (filter (\<lambda>p. is_array_index (fst p)) ps)
         @ filter (\<lambda>p. \<not> is_array_index (fst p)) ps)"

definition Object_keys :: "'v obj \<Rightarrow> string list" where
  "Object_keys ob = map fst (Object_entries ob)"

text \<open>
  The maps keyed by context id, \<open>watchedQueryKeysByContextId\<close> and \<open>watchedContexts\<close>: their
  values are objects and the ids are decimal numerals (see \<open>ctx_id\<close> below).
  \<open>get_prop\<close> is \<open>ob[k]\<close> for such a name (\<open>None\<close> is \<open>undefined\<close>; \<open>Object.prototype\<close> defines no
  numeral), \<open>set_prop\<close> is \<open>ob[k] = v\<close> and \<open>delete_prop\<close> is \<open>delete ob[k]\<close>. An assignment to
  an own name keeps its place in the creation order and a new name goes last. The
  assignment \<open>ob['__proto__'] = v\<close> to an object that does not own \<open>__proto__\<close> runs the
  setter inherited from \<open>Object.prototype\<close>, which makes the object \<open>v\<close> the prototype and
  creates no own property.
\<close>

definition get_prop :: "'v obj \<Rightarrow> string \<Rightarrow> 'v option" where
  "get_prop ob k = map_of ob k"

definition set_prop :: "'v obj \<Rightarrow> string \<Rightarrow> 'v \<Rightarrow> 'v obj" where
  "set_prop ob k v =
     (if k = ''__proto__'' \<and> map_of ob k = None then ob else AList.update k v ob)"

definition delete_prop :: "'v obj \<Rightarrow> string \<Rightarrow> 'v obj" where
  "delete_prop ob k = AList.delete k ob"

text \<open>
  The maps from query keys to queries (\<open>Record<string, Q>\<close>): the queries watched by a
  context, \<open>subscribedQueryKeys\<close>, and the locals \<open>keysBeingWatched\<close>, \<open>toSubscribe\<close> and
  \<open>toUnsubscribe\<close>. Keys and values come from the caller, so two more things matter. Such
  an object is a pair: its own properties, and whether its prototype is \<open>null\<close>.

  \<open>ob[k] = v\<close> for \<open>k = '__proto__'\<close>, when the object does not own \<open>__proto__\<close> and still
  inherits from \<open>Object.prototype\<close>, runs the inherited setter: it creates no own property;
  it sets the prototype to \<open>v\<close> when \<open>v\<close> is an object (which inherits from
  \<open>Object.prototype\<close> in turn) or \<open>null\<close>, and does nothing for any other \<open>v\<close>. Once the
  prototype is \<open>null\<close> no setter is inherited and the assignment creates an own property
  like any other.

  \<open>ob.hasOwnProperty(k)\<close> looks \<open>hasOwnProperty\<close> up on \<open>ob\<close> itself. When \<open>ob\<close> owns a property
  of that name, its value is a query, and when the prototype of \<open>ob\<close> is \<open>null\<close> the lookup
  gives \<open>undefined\<close>: either way the call throws a \<open>TypeError\<close>. Otherwise the built-in
  method tests whether \<open>ob\<close> owns \<open>k\<close>.
\<close>

type_synonym qobj = "jsval obj \<times> bool"

definition set_query_prop :: "qobj \<Rightarrow> string \<Rightarrow> jsval \<Rightarrow> qobj" where
  "set_query_prop ob k v =
     (if k = ''__proto__'' \<and> map_of (fst ob) k = None \<and> \<not> snd ob
      then (fst ob, v = JNull)
      else (AList.update k v (fst ob), snd ob))"

definition hasOwnProperty :: "qobj \<Rightarrow> string \<Rightarrow> error + bool" where
  "hasOwnProperty ob k =
     (if map_of (fst ob) ''hasOwnProperty'' \<noteq> None \<or> snd ob then Inl TypeError
      else Inr (map_of (fst ob) k \<noteq> None))"

section \<open>State\<close>

text \<open>
  A \<open>BaseSubscriptionContext\<close> is an object reached through references: the manager
  keeps a reference in \<open>watchedContexts\<close> and the component keeps its own. The contexts
  live in a store indexed by reference. Of a context the manager uses its \<open>id\<close>, its list
  of \<open>resets\<close> (through \<open>registerReset\<close>) and \<open>forceUpdate\<close>, which belongs to the rendering
  framework and is recorded as a call. A reset callback is the bound \<open>reset\<close> of a
  manager, named by the manager's id. The \<open>id\<close> of a context is \<open>getId()\<close>, that is
  \<open>String(idCount)\<close> for the value \<open>ctx_no\<close> of the counter when the context was made.
\<close>

type_synonym ctx_ref = nat

datatype reset_cb = ManagerReset string

fun String_nat :: "nat \<Rightarrow> string" where
  "String_nat n =
     (if n < 10 then [char_of (48 + n)]
      else String_nat (n div 10) @ [char_of (48 + n mod 10)])"

record ctx =
  ctx_no :: nat
  resets :: "reset_cb list"

definition ctx_id :: "ctx \<Rightarrow> string" where
  "ctx_id x = String_nat (ctx_no x)"

text \<open>
  The manager. JavaScript keeps the prototype of an object in the object; the model keeps
  the own properties in the maps and, beside them, whether the prototype of
  \<open>subscribedQueryKeys\<close> is \<open>null\<close> (\<open>subscribedNullProto\<close>) and the ids of the contexts whose
  object of watched queries has the prototype \<open>null\<close> (\<open>nullProtoQueryKeys\<close>).
\<close>

record manager =
  manager_id :: string
  watchedQueryKeysByContextId :: "jsval obj obj"
  watchedContexts :: "ctx_ref obj"
  subscribedQueryKeys :: "jsval obj"
  pendingSubscriptionUpdate :: bool
  subscribedNullProto :: bool
  nullProtoQueryKeys :: "string list"

text \<open>
  The calls the manager makes to its collaborators, in the order it makes them: the
  configured \<open>get\<close>, \<open>subscribe\<close> and \<open>unsubscribe\<close>, the deferral function
  (\<open>config.updateSubscription\<close> or \<open>requestAnimationFrame\<close>) and a context's
  \<open>forceUpdate\<close>.
\<close>

datatype deferral = UpdateSubscription | RequestAnimationFrame

datatype event =
    GetCall jsval
  | SubscribeCall "jsval list"
  | UnsubscribeCall "jsval list"
  | DeferCall deferral
  | ForceUpdateCall ctx_ref

text \<open>
  The world of one manager: the manager (\<open>this\<close>), the store of contexts, the module
  variable \<open>currentContext\<close> of \<open>watch.ts\<close>, \<open>globalConfig.noGetOutsideContext\<close>, the
  number of callbacks handed to the deferral function that it has not run yet, and the
  calls made so far.
\<close>

record world =
  this :: manager
  contexts :: "ctx_ref \<Rightarrow> ctx"
  currentContext :: "ctx_ref option"
  noGetOutsideContext :: bool
  deferred :: nat
  calls :: "event list"

text \<open>
  \<open>SubscriptionManagerConfig<T, Q>\<close>. A callback that throws returns its error:
  \<open>Inl e\<close> for \<open>get\<close>, \<open>Some e\<close> for \<open>subscribe\<close> and \<open>unsubscribe\<close>. The deferral function
  only stores the callback it is given, so the configuration records whether one is
  configured. The callbacks do not call back into the manager.
\<close>

record 't config =
  cfg_get :: "jsval \<Rightarrow> error + 't"
  cfg_subscribe :: "jsval list \<Rightarrow> error option"
  cfg_unsubscribe :: "jsval list \<Rightarrow> error option"
  cfg_queryToString :: "(jsval \<Rightarrow> error + string) option"
  cfg_updateSubscription :: bool

text \<open>The field initialisers of the class: a new manager with id \<open>i\<close>.\<close>

definition new_manager :: "string \<Rightarrow> manager" where
  "new_manager i =
     \<lparr>manager_id = i, watchedQueryKeysByContextId = [], watchedContexts = [],
      subscribedQueryKeys = [], pendingSubscriptionUpdate = False,
      subscribedNullProto = False, nullProtoQueryKeys = []\<rparr>"

section \<open>The subscription manager\<close>

subsection \<open>\<open>queryToString\<close> and \<open>getContext\<close>\<close>

definition queryToString :: "'t config \<Rightarrow> jsval \<Rightarrow> error + string" where
  "queryToString cfg query =
     (case cfg_queryToString cfg of
        Some f \<Rightarrow> f query
      | None \<Rightarrow> defaultQueryToString query)"

definition getCurrentContext :: "world \<Rightarrow> ctx_ref option" where
  "getCurrentContext w = currentContext w"

text \<open>\<open>context || getCurrentContext()\<close>: a context is an object, hence truthy.\<close>

definition getContext :: "world \<Rightarrow> string \<Rightarrow> ctx_ref option \<Rightarrow> error + ctx_ref option" where
  "getContext w name given =
     (let current = (case given of Some c \<Rightarrow> Some c | None \<Rightarrow> getCurrentContext w)
      in if current = None \<and> noGetOutsideContext w then Inl (OutsideContext name)
         else Inr current)"

subsection \<open>\<open>scheduleSubscriptionUpdate\<close>\<close>

definition scheduleSubscriptionUpdate :: "'t config \<Rightarrow> world \<Rightarrow> world" where
  "scheduleSubscriptionUpdate cfg w =
     (if pendingSubscriptionUpdate (this w) then w
      else w\<lparr>this := (this w)\<lparr>pendingSubscriptionUpdate := True\<rparr>,
              deferred := Suc (deferred w),
              calls := calls w @ [DeferCall (if cfg_updateSubscription cfg
                                             then UpdateSubscription
                                             else RequestAnimationFrame)]\<rparr>)"

subsection \<open>\<open>registerQuery\<close> and \<open>reset\<close>\<close>

text \<open>\<open>context.registerReset(cb)\<close> of \<open>watch.ts\<close>: \<open>this.resets.push(cb)\<close>.\<close>

definition registerReset :: "world \<Rightarrow> ctx_ref \<Rightarrow> reset_cb \<Rightarrow> world" where
  "registerReset w c cb =
     w\<lparr>contexts := (contexts w)(c := (contexts w c)\<lparr>resets := resets (contexts w c) @ [cb]\<rparr>)\<rparr>"

text \<open>
  \<open>registerQuery\<close> computes the key before it writes anything, and key derivation is the
  only step of it that can throw: the result is the error thrown, if any, and the world
  the call leaves.
\<close>

definition registerQuery :: "'t config \<Rightarrow> world \<Rightarrow> ctx_ref \<Rightarrow> jsval \<Rightarrow> error option \<times> world" where
  "registerQuery cfg w c query =
     (let i = ctx_id (contexts w c)
      in case queryToString cfg query of
           Inl e \<Rightarrow> (Some e, w)
         | Inr k \<Rightarrow>
             (let watched = watchedQueryKeysByContextId (this w);
                  watched1 = (case get_prop watched i of
                                None \<Rightarrow> set_prop watched i []
                              | Some qk \<Rightarrow> watched);
                  queryKeys = (case get_prop watched i of
                                 None \<Rightarrow> ([], False)
                               | Some qk \<Rightarrow> (qk, i \<in> set (nullProtoQueryKeys (this w))));
                  w1 = (if Object_keys (fst queryKeys) = []
                        then registerReset w c (ManagerReset (manager_id (this w)))
                        else w);
                  written = set_query_prop queryKeys k query;
                  watched2 = set_prop watched1 i (fst written)
              in (None,
                  w1\<lparr>this := (this w1)
                      \<lparr>watchedQueryKeysByContextId := watched2,
                       watchedContexts := set_prop (watchedContexts (this w1)) i c,
                       nullProtoQueryKeys :=
                         (if snd written then List.insert i (nullProtoQueryKeys (this w1))
                          else removeAll i (nullProtoQueryKeys (this w1)))\<rparr>\<rparr>)))"

definition reset :: "'t config \<Rightarrow> world \<Rightarrow> ctx_ref \<Rightarrow> world" where
  "reset cfg w c =
     (let i = ctx_id (contexts w c)
      in scheduleSubscriptionUpdate cfg
           (w\<lparr>this := (this w)
               \<lparr>watchedQueryKeysByContextId :=
                   delete_prop (watchedQueryKeysByContextId (this w)) i,
                watchedContexts := delete_prop (watchedContexts (this w)) i,
                nullProtoQueryKeys := removeAll i (nullProtoQueryKeys (this w))\<rparr>\<rparr>))"

subsection \<open>\<open>get\<close>\<close>

text \<open>
  The result is what \<open>get\<close> returns or throws, with the world it leaves. The configured
  getter is called first; \<open>getContext\<close> and the registration follow only when it returns.
\<close>

definition get :: "'t config \<Rightarrow> world \<Rightarrow> jsval \<Rightarrow> ctx_ref option \<Rightarrow> (error + 't) \<times> world" where
  "get cfg w query given =
     (let w0 = w\<lparr>calls := calls w @ [GetCall query]\<rparr>
      in case cfg_get cfg query of
           Inl e \<Rightarrow> (Inl e, w0)
         | Inr ret \<Rightarrow>
             (case getContext w0 ''get'' given of
                Inl e \<Rightarrow> (Inl e, w0)
              | Inr None \<Rightarrow> (Inr ret, w0)
              | Inr (Some c) \<Rightarrow>
                  (case registerQuery cfg w0 c query of
                     (Some e, w1) \<Rightarrow> (Inl e, w1)
                   | (None, w1) \<Rightarrow> (Inr ret, scheduleSubscriptionUpdate cfg w1))))"

subsection \<open>\<open>updateSubscriptions\<close>\<close>

text \<open>
  The two nested \<open>forEach\<close> loops over the contexts and their keys fill
  \<open>keysBeingWatched\<close> and \<open>toSubscribe\<close>: \<open>watch_keys\<close> is the inner loop, on the entries still
  to visit, and \<open>watch_contexts\<close> the outer one. \<open>this.subscribedQueryKeys\<close> is not written
  during these loops. A \<open>TypeError\<close> from \<open>hasOwnProperty\<close> leaves \<open>updateSubscriptions\<close> and
  the locals are lost.
\<close>

fun watch_keys :: "qobj \<Rightarrow> (string \<times> jsval) list \<Rightarrow> qobj \<times> qobj \<Rightarrow> error + qobj \<times> qobj" where
  "watch_keys subscribed [] acc = Inr acc"
| "watch_keys subscribed (p # ps) acc =
     (case hasOwnProperty subscribed (fst p) of
        Inl e \<Rightarrow> Inl e
      | Inr owned \<Rightarrow>
          watch_keys subscribed ps
            (set_query_prop (fst acc) (fst p) (snd p),
             if \<not> owned then set_query_prop (snd acc) (fst p) (snd p) else snd acc))"

fun watch_contexts ::
  "qobj \<Rightarrow> (string \<times> jsval obj) list \<Rightarrow> qobj \<times> qobj \<Rightarrow> error + qobj \<times> qobj" where
  "watch_contexts subscribed [] acc = Inr acc"
| "watch_contexts subscribed (c # cs) acc =
     (case watch_keys subscribed (Object_entries (snd c)) acc of
        Inl e \<Rightarrow> Inl e
      | Inr acc' \<Rightarrow> watch_contexts subscribed cs acc')"

definition watch_pass :: "manager \<Rightarrow> error + qobj \<times> qobj" where
  "watch_pass m =
     watch_contexts (subscribedQueryKeys m, subscribedNullProto m)
       (Object_entries (watchedQueryKeysByContextId m)) (([], False), ([], False))"

text \<open>The loop over \<open>Object.keys(this.subscribedQueryKeys)\<close> that fills \<open>toUnsubscribe\<close>.\<close>

fun unwatched_keys :: "qobj \<Rightarrow> (string \<times> jsval) list \<Rightarrow> qobj \<Rightarrow> error + qobj" where
  "unwatched_keys watching [] acc = Inr acc"
| "unwatched_keys watching (p # ps) acc =
     (case hasOwnProperty watching (fst p) of
        Inl e \<Rightarrow> Inl e
      | Inr owned \<Rightarrow>
          unwatched_keys watching ps
            (if \<not> owned then set_query_prop acc (fst p) (snd p) else acc))"

text \<open>
  The three loops together: the own properties of \<open>keysBeingWatched\<close>, \<open>toSubscribe\<close> and
  \<open>toUnsubscribe\<close> when they are done, or the \<open>TypeError\<close>.
\<close>

definition reconcile :: "manager \<Rightarrow> error + jsval obj \<times> jsval obj \<times> jsval obj" where
  "reconcile m =
     (case watch_pass m of
        Inl e \<Rightarrow> Inl e
      | Inr acc \<Rightarrow>
          (case unwatched_keys (fst acc) (Object_entries (subscribedQueryKeys m)) ([], False) of
             Inl e \<Rightarrow> Inl e
           | Inr toUnsub \<Rightarrow> Inr (fst (fst acc), fst (snd acc), fst toUnsub)))"

definition keysBeingWatched :: "manager \<Rightarrow> jsval obj" where
  "keysBeingWatched m = (case reconcile m of Inl e \<Rightarrow> [] | Inr r \<Rightarrow> fst r)"

definition toSubscribe :: "manager \<Rightarrow> jsval obj" where
  "toSubscribe m = (case reconcile m of Inl e \<Rightarrow> [] | Inr r \<Rightarrow> fst (snd r))"

definition toUnsubscribe :: "manager \<Rightarrow> jsval obj" where
  "toUnsubscribe m = (case reconcile m of Inl e \<Rightarrow> [] | Inr r \<Rightarrow> snd (snd r))"

text \<open>
  \<open>Object.keys(toUnsubscribe).map(...)\<close> deletes each key from \<open>subscribedQueryKeys\<close> and
  collects the queries; \<open>Object.keys(toSubscribe).map(...)\<close> writes each key and collects
  the queries. A callback is called only with a non-empty list, and what it throws leaves
  \<open>updateSubscriptions\<close> at once.
\<close>

definition remove_subscribed :: "jsval obj \<Rightarrow> jsval obj \<Rightarrow> jsval obj" where
  "remove_subscribed toUnsub subscribed =
     fold (\<lambda>k s. delete_prop s k) (Object_keys toUnsub) subscribed"

definition add_subscribed :: "jsval obj \<Rightarrow> qobj \<Rightarrow> qobj" where
  "add_subscribed toSub subscribed =
     fold (\<lambda>p s. set_query_prop s (fst p) (snd p)) (Object_entries toSub) subscribed"

definition updateSubscriptions :: "'t config \<Rightarrow> world \<Rightarrow> error option \<times> world" where
  "updateSubscriptions cfg w =
     (let m0 = (this w)\<lparr>pendingSubscriptionUpdate := False\<rparr>
      in case reconcile m0 of
           Inl e \<Rightarrow> (Some e, w\<lparr>this := m0\<rparr>)
         | Inr r \<Rightarrow>
             (let toSub = fst (snd r);
                  toUnsub = snd (snd r);
                  toUnsubscribeQueries = map snd (Object_entries toUnsub);
                  m1 = m0\<lparr>subscribedQueryKeys :=
                            remove_subscribed toUnsub (subscribedQueryKeys m0)\<rparr>;
                  w1 = w\<lparr>this := m1\<rparr>;
                  w2 = (if toUnsubscribeQueries = [] then w1
                        else w1\<lparr>calls := calls w1 @ [UnsubscribeCall toUnsubscribeQueries]\<rparr>)
              in case (if toUnsubscribeQueries = [] then None
                       else cfg_unsubscribe cfg toUnsubscribeQueries) of
                   Some e \<Rightarrow> (Some e, w2)
                 | None \<Rightarrow>
                     (let toSubscribeQueries = map snd (Object_entries toSub);
                          added = add_subscribed toSub
                                    (subscribedQueryKeys m1, subscribedNullProto m1);
                          m2 = m1\<lparr>subscribedQueryKeys := fst added,
                                  subscribedNullProto := snd added\<rparr>;
                          w3 = w2\<lparr>this := m2\<rparr>
                      in if toSubscribeQueries = [] then (None, w3)
                         else (cfg_subscribe cfg toSubscribeQueries,
                               w3\<lparr>calls := calls w3 @ [SubscribeCall toSubscribeQueries]\<rparr>))))"

text \<open>
  A run is cut short by a callback exactly when \<open>unsubscribe\<close> is called, that is with a
  non-empty list, and throws. The keys of a manager are ordinary when none of them is
  \<open>hasOwnProperty\<close> or \<open>__proto__\<close> and \<open>subscribedQueryKeys\<close> has its first prototype.
\<close>

definition unsubscribe_throws :: "'t config \<Rightarrow> world \<Rightarrow> bool" where
  "unsubscribe_throws cfg w \<longleftrightarrow>
     toUnsubscribe (this w) \<noteq> []
     \<and> cfg_unsubscribe cfg (map snd (Object_entries (toUnsubscribe (this w)))) \<noteq> None"

definition ordinary_key :: "string \<Rightarrow> bool" where
  "ordinary_key k \<longleftrightarrow> k \<noteq> ''hasOwnProperty'' \<and> k \<noteq> ''__proto__''"

definition ordinary_keys :: "manager \<Rightarrow> bool" where
  "ordinary_keys m \<longleftrightarrow>
     \<not> subscribedNullProto m
     \<and> list_all ordinary_key (Object_keys (subscribedQueryKeys m))
     \<and> list_all (\<lambda>c. list_all ordinary_key (Object_keys (snd c)))
          (Object_entries (watchedQueryKeysByContextId m))"

text \<open>
  The deferral function runs a callback it was handed, once: \<open>updateSubscriptions\<close> runs
  only this way (it is a protected method, handed out by \<open>scheduleSubscriptionUpdate\<close>).
  With nothing handed over, nothing runs.
\<close>

definition run_deferred :: "'t config \<Rightarrow> world \<Rightarrow> error option \<times> world" where
  "run_deferred cfg w =
     (if deferred w = 0 then (None, w)
      else updateSubscriptions cfg (w\<lparr>deferred := deferred w - 1\<rparr>))"

subsection \<open>\<open>updateQueries\<close>\<close>

text \<open>The three overloads: no argument, a list of queries, a test function.\<close>

datatype param = NoParam | QueryList "jsval list" | QueryTest "jsval \<Rightarrow> error + bool"

text \<open>
  \<open>param.find(p => this.queryToString(p) === this.queryToString(q))\<close>: the first element
  of the list with the key of \<open>q\<close>, or \<open>undefined\<close>.
\<close>

fun find_query :: "'t config \<Rightarrow> jsval \<Rightarrow> jsval list \<Rightarrow> error + jsval" where
  "find_query cfg q [] = Inr JUndefined"
| "find_query cfg q (p # ps) =
     (case queryToString cfg p of
        Inl e \<Rightarrow> Inl e
      | Inr kp \<Rightarrow>
          (case queryToString cfg q of
             Inl e \<Rightarrow> Inl e
           | Inr kq \<Rightarrow> if kp = kq then Inr p else find_query cfg q ps))"

text \<open>\<open>testFn\<close>; in the list form it is \<open>!!\<close> of the element found.\<close>

definition testFn :: "'t config \<Rightarrow> param \<Rightarrow> jsval \<Rightarrow> error + bool" where
  "testFn cfg prm q =
     (case prm of
        NoParam \<Rightarrow> Inr True
      | QueryList ps \<Rightarrow>
          (case find_query cfg q ps of Inl e \<Rightarrow> Inl e | Inr found \<Rightarrow> Inr (truthy found))
      | QueryTest f \<Rightarrow> f q)"

text \<open>
  \<open>Object.keys(queryKeys).find(key => testFn(queryKeys[key]))\<close>: the first key whose
  query passes the test, or \<open>undefined\<close> (\<open>None\<close>).
\<close>

fun find_key :: "(jsval \<Rightarrow> error + bool) \<Rightarrow> (string \<times> jsval) list \<Rightarrow> error + string option" where
  "find_key t [] = Inr None"
| "find_key t (p # ps) =
     (case t (snd p) of
        Inl e \<Rightarrow> Inl e
      | Inr b \<Rightarrow> if b then Inr (Some (fst p)) else find_key t ps)"

text \<open>\<open>doUpdate = !!(the key found)\<close>: a string is truthy when it is not empty.\<close>

definition doUpdate :: "string option \<Rightarrow> bool" where
  "doUpdate found = (case found of None \<Rightarrow> False | Some k \<Rightarrow> k \<noteq> [])"

text \<open>
  The \<open>forEach\<close> over the context ids, on the ids still to visit. \<open>forceUpdate\<close> is
  recorded as a call; it does not re-enter the manager before \<open>updateQueries\<close> returns.
\<close>

fun update_loop ::
  "(jsval \<Rightarrow> error + bool) \<Rightarrow> (string \<times> jsval obj) list \<Rightarrow> world \<Rightarrow> error option \<times> world" where
  "update_loop t [] w = (None, w)"
| "update_loop t (c # cs) w =
     (case find_key t (Object_entries (snd c)) of
        Inl e \<Rightarrow> (Some e, w)
      | Inr found \<Rightarrow>
          if doUpdate found
          then (case get_prop (watchedContexts (this w)) (fst c) of
                  None \<Rightarrow> (Some (MissingContext (fst c)), w)
                | Some r \<Rightarrow> update_loop t cs (w\<lparr>calls := calls w @ [ForceUpdateCall r]\<rparr>))
          else update_loop t cs w)"

definition updateQueries :: "'t config \<Rightarrow> world \<Rightarrow> param \<Rightarrow> error option \<times> world" where
  "updateQueries cfg w prm =
     update_loop (testFn cfg prm) (Object_entries (watchedQueryKeysByContextId (this w))) w"

section \<open>The environment of a manager\<close>

text \<open>
  \<open>BaseSubscriptionContext.reset\<close> of \<open>watch.ts\<close> calls every registered reset with the
  context and empties the list. A callback of another manager leaves this one alone.
\<close>

definition ctx_reset :: "'t config \<Rightarrow> world \<Rightarrow> ctx_ref \<Rightarrow> world" where
  "ctx_reset cfg w c =
     (let w1 = fold (\<lambda>cb v. if cb = ManagerReset (manager_id (this v)) then reset cfg v c else v)
                 (resets (contexts w c)) w
      in w1\<lparr>contexts := (contexts w1)(c := (contexts w1 c)\<lparr>resets := []\<rparr>)\<rparr>)"

text \<open>
  What can happen to a manager between its construction and any later moment: a \<open>get\<close>,
  a context's \<open>reset\<close> (at the start of a render and on unmount), the deferral function
  running a callback, an \<open>updateQueries\<close>, a render setting or clearing the current
  context, and a write to \<open>config.noGetOutsideContext\<close>. Errors are thrown to the caller
  and the world stays as the failed call left it.
\<close>

datatype action =
    Get jsval "ctx_ref option"
  | ContextReset ctx_ref
  | RunDeferred
  | UpdateQueries param
  | SetCurrentContext "ctx_ref option"
  | SetNoGetOutsideContext bool

definition step :: "'t config \<Rightarrow> action \<Rightarrow> world \<Rightarrow> world" where
  "step cfg a w =
     (case a of
        Get q given \<Rightarrow> snd (get cfg w q given)
      | ContextReset c \<Rightarrow> ctx_reset cfg w c
      | RunDeferred \<Rightarrow> snd (run_deferred cfg w)
      | UpdateQueries prm \<Rightarrow> snd (updateQueries cfg w prm)
      | SetCurrentContext c \<Rightarrow> w\<lparr>currentContext := c\<rparr>
      | SetNoGetOutsideContext b \<Rightarrow> w\<lparr>noGetOutsideContext := b\<rparr>)"

definition run :: "'t config \<Rightarrow> action list \<Rightarrow> world \<Rightarrow> world" where
  "run cfg acts w = fold (step cfg) acts w"

text \<open>The world right after \<open>new SubscriptionManager\<close>: no current context, the default
  \<open>noGetOutsideContext: true\<close>, nothing deferred.\<close>

definition new_world :: "string \<Rightarrow> (ctx_ref \<Rightarrow> ctx) \<Rightarrow> world" where
  "new_world i store =
     \<lparr>this = new_manager i, contexts = store, currentContext = None,
      noGetOutsideContext = True, deferred = 0, calls = []\<rparr>"

section \<open>The configurations of the tests\<close>

text \<open>
  \<open>manager.spec.ts\<close> builds its manager from a getter that returns 123 and mocks for
  \<open>subscribe\<close> and \<open>unsubscribe\<close>; \<open>watch.spec.tsx\<close> adds a deferral function that keeps
  the callback. The contexts of the store get the ids 1, 2, ... and start without resets.
\<close>

definition test_config :: "int config" where
  "test_config =
     \<lparr>cfg_get = (\<lambda>q. Inr 123), cfg_subscribe = (\<lambda>qs. None), cfg_unsubscribe = (\<lambda>qs. None),
      cfg_queryToString = None, cfg_updateSubscription = True\<rparr>"

definition throwing_config :: "int config" where
  "throwing_config =
     \<lparr>cfg_get = (\<lambda>q. Inl (Thrown ''get'')),
      cfg_subscribe = (\<lambda>qs. Some (Thrown ''subscribe'')),
      cfg_unsubscribe = (\<lambda>qs. Some (Thrown ''unsubscribe'')),
      cfg_queryToString = None, cfg_updateSubscription = True\<rparr>"

text \<open>The mocks of the tests with an \<open>unsubscribe\<close> that throws.\<close>

definition failing_unsubscribe_config :: "int config" where
  "failing_unsubscribe_config =
     \<lparr>cfg_get = (\<lambda>q. Inr 123), cfg_subscribe = (\<lambda>qs. None),
      cfg_unsubscribe = (\<lambda>qs. Some (Thrown ''unsubscribe'')),
      cfg_queryToString = None, cfg_updateSubscription = True\<rparr>"

text \<open>The mocks of the tests with a \<open>queryToString\<close> that gives every query the key
  \<open>__proto__\<close>.\<close>

definition proto_config :: "int config" where
  "proto_config =
     \<lparr>cfg_get = (\<lambda>q. Inr 123), cfg_subscribe = (\<lambda>qs. None), cfg_unsubscribe = (\<lambda>qs. None),
      cfg_queryToString = Some (\<lambda>q. Inr ''__proto__''), cfg_updateSubscription = True\<rparr>"

definition test_store :: "ctx_ref \<Rightarrow> ctx" where
  "test_store r = \<lparr>ctx_no = Suc r, resets = []\<rparr>"

definition test_world :: world where
  "test_world = new_world ''1'' test_store"

text \<open>The test world during the render of the second context.\<close>

definition ambient_world :: world where
  "ambient_world = test_world\<lparr>currentContext := Some 1\<rparr>"

text \<open>
  The test \<open>unsubscribes from queries on prop change after subscribing\<close>, before the
  second deferred run: the first context was subscribed to \<open>p1a\<close> and now reads \<open>p1b\<close>.
\<close>

definition prop_change_world :: world where
  "prop_change_world =
     \<lparr>this = \<lparr>manager_id = ''1'',
               watchedQueryKeysByContextId = [(''1'', [(''p1b'', JString ''p1b'')])],
               watchedContexts = [(''1'', 0)],
               subscribedQueryKeys = [(''p1a'', JString ''p1a'')],
               pendingSubscriptionUpdate = True,
               subscribedNullProto = False, nullProtoQueryKeys = []\<rparr>,
      contexts = test_store(0 := (test_store 0)\<lparr>resets := [ManagerReset ''1'']\<rparr>),
      currentContext = None, noGetOutsideContext = True, deferred = 1, calls = []\<rparr>"

text \<open>
  A manager of the default query type (\<open>Q = void\<close>): the first context has read the
  query \<open>undefined\<close>, whose key is the empty string.
\<close>

definition empty_key_world :: world where
  "empty_key_world =
     \<lparr>this = \<lparr>manager_id = ''1'',
               watchedQueryKeysByContextId = [(''1'', [([], JUndefined)])],
               watchedContexts = [(''1'', 0)],
               subscribedQueryKeys = [],
               pendingSubscriptionUpdate = True,
               subscribedNullProto = False, nullProtoQueryKeys = []\<rparr>,
      contexts = test_store(0 := (test_store 0)\<lparr>resets := [ManagerReset ''1'']\<rparr>),
      currentContext = None, noGetOutsideContext = True, deferred = 1,
      calls = [GetCall JUndefined, DeferCall UpdateSubscription]\<rparr>"

section \<open>Basic facts\<close>

declare String_nat.simps [simp del]

subsection \<open>Context ids are numerals\<close>

lemma last_String_nat: "last (String_nat n) = char_of (48 + n mod 10)"
  by (subst String_nat.simps) simp

lemma String_nat_not_proto: "String_nat n \<noteq> ''__proto__''"
proof
  assume "String_nat n = ''__proto__''"
  then have "last (String_nat n) = CHR ''_''" by simp
  then have "char_of (48 + n mod 10) = CHR ''_''" by (simp only: last_String_nat)
  then have "(of_char (char_of (48 + n mod 10)) :: nat) = of_char (CHR ''_'')" by (rule arg_cong)
  then have a: "(48 + n mod 10) mod 256 = (95::nat)" by (simp only: of_char_of) simp
  have "n mod 10 < 10" by simp
  then have "48 + n mod 10 < 256" by linarith
  then have "(48 + n mod 10) mod 256 = 48 + n mod 10" by (rule mod_less)
  with a have "n mod 10 = 47" by linarith
  with \<open>n mod 10 < 10\<close> show False by linarith
qed

lemma ctx_id_not_proto [simp]: "ctx_id x \<noteq> ''__proto__''"
  by (simp add: ctx_id_def String_nat_not_proto)

lemma ctx_id_resets [simp]: "ctx_id (x\<lparr>resets := r\<rparr>) = ctx_id x"
  by (simp add: ctx_id_def)

subsection \<open>Properties read, written and deleted\<close>

lemma get_prop_set_prop:
  "k \<noteq> ''__proto__'' \<Longrightarrow>
   get_prop (set_prop ob k v) k' = (if k' = k then Some v else get_prop ob k')"
  by (simp add: get_prop_def set_prop_def update_conv')

lemma get_prop_set_prop_id:
  "get_prop (set_prop ob (ctx_id x) v) k' = (if k' = ctx_id x then Some v else get_prop ob k')"
  by (simp add: get_prop_set_prop)

lemma get_prop_delete_prop:
  "get_prop (delete_prop ob k) k' = (if k' = k then None else get_prop ob k')"
  by (simp add: get_prop_def delete_prop_def delete_conv')

lemma Object_keys_Nil: "Object_keys ([] :: 'v obj) = []"
  by (simp add: Object_keys_def Object_entries_def)

subsection \<open>Keys and entries of an object\<close>

lemma mset_Object_entries: "mset (Object_entries ob) = mset (AList.clearjunk ob)"
  by (simp add: Object_entries_def Let_def)

lemma set_Object_entries: "set (Object_entries ob) = set (AList.clearjunk ob)"
  using mset_Object_entries [of ob] by (metis set_mset_mset)

lemma distinct_Object_keys: "distinct (Object_keys ob)"
proof -
  have "mset (map fst (Object_entries ob)) = mset (map fst (AList.clearjunk ob))"
    by (simp add: mset_Object_entries)
  then have "distinct (map fst (Object_entries ob)) = distinct (map fst (AList.clearjunk ob))"
    by (rule mset_eq_imp_distinct_iff)
  then show ?thesis
    by (simp add: Object_keys_def distinct_clearjunk)
qed

lemma Object_entries_iff: "(k, v) \<in> set (Object_entries ob) \<longleftrightarrow> map_of ob k = Some v"
proof -
  have "(k, v) \<in> set (AList.clearjunk ob) \<longleftrightarrow> map_of (AList.clearjunk ob) k = Some v"
    by (simp add: distinct_clearjunk)
  then show ?thesis
    by (simp add: set_Object_entries map_of_clearjunk)
qed

lemma map_of_Object_entries: "map_of (Object_entries ob) = map_of ob"
proof
  fix k
  have d: "distinct (map fst (Object_entries ob))"
    using distinct_Object_keys [of ob] by (simp add: Object_keys_def)
  show "map_of (Object_entries ob) k = map_of ob k"
  proof (cases "map_of ob k")
    case None
    then have "k \<notin> fst ` set (Object_entries ob)"
      by (auto simp add: Object_entries_iff)
    then have "map_of (Object_entries ob) k = None"
      by (simp add: map_of_eq_None_iff)
    then show ?thesis using None by simp
  next
    case (Some v)
    then have "(k, v) \<in> set (Object_entries ob)" by (simp add: Object_entries_iff)
    then show ?thesis using d Some by simp
  qed
qed

lemma set_Object_keys: "set (Object_keys ob) = dom (map_of ob)"
proof -
  have "k \<in> set (Object_keys ob) \<longleftrightarrow> k \<in> dom (map_of ob)" for k
  proof -
    have "k \<in> set (Object_keys ob) \<longleftrightarrow> (\<exists>v. (k, v) \<in> set (Object_entries ob))"
      by (force simp add: Object_keys_def)
    then show ?thesis by (auto simp add: Object_entries_iff)
  qed
  then show ?thesis by blast
qed

lemma Object_entries_empty: "Object_entries ob = [] \<longleftrightarrow> ob = []"
proof -
  have "Object_entries ob = [] \<longleftrightarrow> set (Object_keys ob) = {}"
    by (simp add: Object_keys_def)
  also have "\<dots> \<longleftrightarrow> dom (map_of ob) = {}"
    by (simp add: set_Object_keys)
  also have "\<dots> \<longleftrightarrow> ob = []"
    by (simp add: map_of_eq_empty_iff)
  finally show ?thesis .
qed

lemma Object_keys_empty: "Object_keys ob = [] \<longleftrightarrow> ob = []"
  by (simp add: Object_keys_def Object_entries_empty)

lemma set_query_prop_ordinary:
  "k \<noteq> ''__proto__'' \<Longrightarrow> set_query_prop ob k v = (AList.update k v (fst ob), snd ob)"
  by (simp add: set_query_prop_def)

lemma hasOwnProperty_ordinary:
  "map_of (fst ob) ''hasOwnProperty'' = None \<Longrightarrow> \<not> snd ob \<Longrightarrow>
   hasOwnProperty ob k = Inr (map_of (fst ob) k \<noteq> None)"
  by (simp add: hasOwnProperty_def)

lemma dom_set_query_prop: "dom (map_of (fst ob)) \<subseteq> dom (map_of (fst (set_query_prop ob k v)))"
  by (auto simp add: set_query_prop_def update_conv')

lemma map_of_delete_prop: "map_of (delete_prop ob k) = (map_of ob)(k := None)"
  by (simp add: delete_prop_def delete_conv')


subsection \<open>\<open>get\<close> and \<open>registerQuery\<close>\<close>

lemma test_store_ids: "ctx_id (test_store 0) = ''1''" "ctx_id (test_store (Suc 0)) = ''2''"
  by code_simp+

lemma test_store_resets: "resets (test_store r) = []"
  by (simp add: test_store_def)

lemmas test_defs = test_world_def new_world_def new_manager_def test_config_def throwing_config_def

lemmas get_defs = get_def getContext_def getCurrentContext_def registerQuery_def queryToString_def
  defaultQueryToString_def registerReset_def scheduleSubscriptionUpdate_def Let_def

lemma schedule_this:
  "watchedQueryKeysByContextId (this (scheduleSubscriptionUpdate cfg w))
     = watchedQueryKeysByContextId (this w)"
  "watchedContexts (this (scheduleSubscriptionUpdate cfg w)) = watchedContexts (this w)"
  "subscribedQueryKeys (this (scheduleSubscriptionUpdate cfg w)) = subscribedQueryKeys (this w)"
  "subscribedNullProto (this (scheduleSubscriptionUpdate cfg w)) = subscribedNullProto (this w)"
  "manager_id (this (scheduleSubscriptionUpdate cfg w)) = manager_id (this w)"
  "pendingSubscriptionUpdate (this (scheduleSubscriptionUpdate cfg w))"
  "contexts (scheduleSubscriptionUpdate cfg w) = contexts w"
  "currentContext (scheduleSubscriptionUpdate cfg w) = currentContext w"
  "noGetOutsideContext (scheduleSubscriptionUpdate cfg w) = noGetOutsideContext w"
  by (simp_all add: scheduleSubscriptionUpdate_def)

lemma schedule_calls:
  "calls (scheduleSubscriptionUpdate cfg w)
     = calls w @ (if pendingSubscriptionUpdate (this w) then []
                  else [DeferCall (if cfg_updateSubscription cfg then UpdateSubscription
                                   else RequestAnimationFrame)])"
  "deferred (scheduleSubscriptionUpdate cfg w)
     = (if pendingSubscriptionUpdate (this w) then deferred w else Suc (deferred w))"
  by (simp_all add: scheduleSubscriptionUpdate_def)

lemma registerQuery_fails:
  "queryToString cfg q = Inl e \<Longrightarrow> registerQuery cfg w c q = (Some e, w)"
  by (simp add: registerQuery_def)

lemma registerQuery_ok:
  assumes "queryToString cfg q = Inr k" and "k \<noteq> ''__proto__''"
  shows "fst (registerQuery cfg w c q) = None"
    and "get_prop (watchedQueryKeysByContextId (this (snd (registerQuery cfg w c q))))
           (ctx_id (contexts w c))
          = Some (AList.update k q (case get_prop (watchedQueryKeysByContextId (this w))
                                           (ctx_id (contexts w c)) of
                                      None \<Rightarrow> [] | Some qk \<Rightarrow> qk))"
    and "get_prop (watchedContexts (this (snd (registerQuery cfg w c q)))) (ctx_id (contexts w c))
          = Some c"
  using assms
  by (simp_all add: registerQuery_def Let_def registerReset_def get_prop_set_prop_id
      set_query_prop_ordinary split: option.splits)

text \<open>What \<open>registerQuery\<close> leaves alone, whatever the query.\<close>

lemma registerQuery_others:
  "i \<noteq> ctx_id (contexts w c) \<Longrightarrow>
     get_prop (watchedQueryKeysByContextId (this (snd (registerQuery cfg w c q)))) i
       = get_prop (watchedQueryKeysByContextId (this w)) i"
  "i \<noteq> ctx_id (contexts w c) \<Longrightarrow>
     get_prop (watchedContexts (this (snd (registerQuery cfg w c q)))) i
       = get_prop (watchedContexts (this w)) i"
  by (simp_all add: registerQuery_def Let_def registerReset_def get_prop_set_prop_id
      split: sum.splits option.splits)

lemma registerQuery_this:
  "subscribedQueryKeys (this (snd (registerQuery cfg w c q))) = subscribedQueryKeys (this w)"
  "subscribedNullProto (this (snd (registerQuery cfg w c q))) = subscribedNullProto (this w)"
  "pendingSubscriptionUpdate (this (snd (registerQuery cfg w c q)))
     = pendingSubscriptionUpdate (this w)"
  "manager_id (this (snd (registerQuery cfg w c q))) = manager_id (this w)"
  by (simp_all add: registerQuery_def Let_def registerReset_def split: sum.splits)

lemma registerQuery_world:
  "calls (snd (registerQuery cfg w c q)) = calls w"
  "deferred (snd (registerQuery cfg w c q)) = deferred w"
  "currentContext (snd (registerQuery cfg w c q)) = currentContext w"
  "noGetOutsideContext (snd (registerQuery cfg w c q)) = noGetOutsideContext w"
  "c' \<noteq> c \<Longrightarrow> contexts (snd (registerQuery cfg w c q)) c' = contexts w c'"
  "ctx_no (contexts (snd (registerQuery cfg w c q)) c') = ctx_no (contexts w c')"
  by (simp_all add: registerQuery_def Let_def registerReset_def split: sum.splits)

lemma registerQuery_ctx_id:
  "ctx_id (contexts (snd (registerQuery cfg w c q)) c') = ctx_id (contexts w c')"
  by (simp add: ctx_id_def registerQuery_world)

lemma get_getter_throws:
  "cfg_get cfg q = Inl e \<Longrightarrow> get cfg w q given = (Inl e, w\<lparr>calls := calls w @ [GetCall q]\<rparr>)"
  by (simp add: get_def)

lemma getContext_available:
  "given = Some c \<or> given = None \<and> currentContext w = Some c \<Longrightarrow>
   getContext (w\<lparr>calls := cs\<rparr>) name given = Inr (Some c)"
  by (auto simp add: getContext_def getCurrentContext_def)

lemma get_codec_fails:
  "cfg_get cfg q = Inr r \<Longrightarrow> given = Some c \<or> given = None \<and> currentContext w = Some c \<Longrightarrow>
   queryToString cfg q = Inl e \<Longrightarrow>
   get cfg w q given = (Inl e, w\<lparr>calls := calls w @ [GetCall q]\<rparr>)"
  by (simp add: get_def getContext_available registerQuery_fails)

lemma get_success:
  assumes "cfg_get cfg q = Inr r"
    and "given = Some c \<or> given = None \<and> currentContext w = Some c"
    and "queryToString cfg q = Inr k"
  shows "get cfg w q given =
    (Inr r, scheduleSubscriptionUpdate cfg
              (snd (registerQuery cfg (w\<lparr>calls := calls w @ [GetCall q]\<rparr>) c q)))"
proof -
  have "fst (registerQuery cfg (w\<lparr>calls := calls w @ [GetCall q]\<rparr>) c q) = None"
    using assms(3) by (simp add: registerQuery_def Let_def)
  then show ?thesis
    using assms(1,2)
    by (cases "registerQuery cfg (w\<lparr>calls := calls w @ [GetCall q]\<rparr>) c q")
      (simp add: get_def getContext_available)
qed

lemma Object_keys_update: "Object_keys (AList.update k v ob) \<noteq> []"
  by (simp add: Object_keys_empty)

lemma registerQuery_resets:
  assumes "queryToString cfg q = Inr k"
  shows "resets (contexts (snd (registerQuery cfg w c q)) c)
           = (if Object_keys (case get_prop (watchedQueryKeysByContextId (this w))
                                     (ctx_id (contexts w c)) of
                                None \<Rightarrow> [] | Some qk \<Rightarrow> qk) = []
              then resets (contexts w c) @ [ManagerReset (manager_id (this w))]
              else resets (contexts w c))"
  using assms
  by (simp add: registerQuery_def Let_def registerReset_def Object_keys_Nil split: option.splits)

lemma reset_effect:
  "get_prop (watchedQueryKeysByContextId (this (reset cfg w c))) (ctx_id (contexts w c)) = None"
  "get_prop (watchedContexts (this (reset cfg w c))) (ctx_id (contexts w c)) = None"
  "pendingSubscriptionUpdate (this (reset cfg w c))"
  "i \<noteq> ctx_id (contexts w c) \<Longrightarrow>
     get_prop (watchedQueryKeysByContextId (this (reset cfg w c))) i
       = get_prop (watchedQueryKeysByContextId (this w)) i"
  "i \<noteq> ctx_id (contexts w c) \<Longrightarrow>
     get_prop (watchedContexts (this (reset cfg w c))) i = get_prop (watchedContexts (this w)) i"
  "subscribedQueryKeys (this (reset cfg w c)) = subscribedQueryKeys (this w)"
  "subscribedNullProto (this (reset cfg w c)) = subscribedNullProto (this w)"
  "manager_id (this (reset cfg w c)) = manager_id (this w)"
  "contexts (reset cfg w c) = contexts w"
  by (simp_all add: reset_def Let_def schedule_this get_prop_delete_prop)

lemma reset_calls:
  "calls (reset cfg w c)
     = calls w @ (if pendingSubscriptionUpdate (this w) then []
                  else [DeferCall (if cfg_updateSubscription cfg then UpdateSubscription
                                   else RequestAnimationFrame)])"
  "deferred (reset cfg w c)
     = (if pendingSubscriptionUpdate (this w) then deferred w else Suc (deferred w))"
  by (simp_all add: reset_def Let_def schedule_calls)

text \<open>Two calls of \<open>get\<close> in the test world, evaluated.\<close>

lemma get_p1a:
  "get test_config ambient_world (JString ''p1a'') (Some 0) =
     (Inr 123,
      ambient_world\<lparr>this := (this ambient_world)
          \<lparr>watchedQueryKeysByContextId := [(''1'', [(''p1a'', JString ''p1a'')])],
           watchedContexts := [(''1'', 0)], pendingSubscriptionUpdate := True\<rparr>,
        contexts := (contexts ambient_world)(0 := (test_store 0)\<lparr>resets := [ManagerReset ''1'']\<rparr>),
        deferred := 1,
        calls := [GetCall (JString ''p1a''), DeferCall UpdateSubscription]\<rparr>)"
  by (simp add: ambient_world_def test_defs get_defs test_store_ids test_store_resets
      Object_keys_Nil get_prop_def set_prop_def set_query_prop_def)

lemma get_null:
  "get test_config ambient_world JNull (Some 0) =
     (Inl FalseyQuery, ambient_world\<lparr>calls := [GetCall JNull]\<rparr>)"
  by (simp add: ambient_world_def test_defs get_defs)


subsection \<open>The loops of \<open>updateSubscriptions\<close> on ordinary keys\<close>

lemma upd_fold_map_of:
  "map_of (fold (\<lambda>p. AList.update (fst p) (snd p)) ps s) = map_of s ++ map_of (rev ps)"
proof (induction ps arbitrary: s)
  case Nil
  then show ?case by simp
next
  case (Cons p ps)
  have "map_of (AList.update (fst p) (snd p) s) = (map_of s)(fst p \<mapsto> snd p)"
    by (rule update_conv')
  moreover have "map_of (rev (p # ps)) = [fst p \<mapsto> snd p] ++ map_of (rev ps)"
    by simp
  moreover have "map_of s ++ ([fst p \<mapsto> snd p] ++ map_of (rev ps))
                   = (map_of s)(fst p \<mapsto> snd p) ++ map_of (rev ps)"
    by (simp only: map_add_assoc map_add_upd map_add_empty)
  ultimately show ?case
    by (simp only: fold_simps Cons.IH)
qed

lemma map_of_rev_distinct:
  assumes "distinct (map fst ps)"
  shows "map_of (rev ps) = map_of ps"
proof -
  have "distinct (map fst (rev ps))" using assms by (simp add: rev_map [symmetric])
  then show ?thesis using assms by (simp add: map_of_inject_set)
qed

lemma upd_fold_dom:
  "dom (map_of (fold (\<lambda>p. AList.update (fst p) (snd p)) ps s)) = dom (map_of s) \<union> fst ` set ps"
  by (simp add: upd_fold_map_of dom_map_of_conv_image_fst Un_commute)

lemma upd_fold_Some:
  assumes "map_of (fold (\<lambda>p. AList.update (fst p) (snd p)) ps s) k = Some q"
  shows "map_of s k = Some q \<or> (k, q) \<in> set ps"
proof (cases "map_of (rev ps) k")
  case None
  then show ?thesis using assms by (simp add: upd_fold_map_of map_add_def)
next
  case (Some v)
  then have "(k, v) \<in> set (rev ps)" by (rule map_of_SomeD)
  then show ?thesis using assms Some by (simp add: upd_fold_map_of map_add_def)
qed

lemma cond_fold_map_of:
  "map_of (fold (\<lambda>p t. if S (fst p) = None then AList.update (fst p) (snd p) t else t) ps b) k
     = (if S k = None then map_of (fold (\<lambda>p. AList.update (fst p) (snd p)) ps b) k
        else map_of b k)"
proof (induction ps arbitrary: b)
  case Nil
  then show ?case by simp
next
  case (Cons p ps)
  show ?case
  proof (cases "S (fst p) = None")
    case True
    then show ?thesis by (auto simp add: Cons.IH update_conv')
  next
    case False
    then show ?thesis
      by (auto simp add: Cons.IH upd_fold_map_of map_add_def update_conv' split: option.splits)
  qed
qed

lemma watch_keys_ordinary:
  assumes "map_of (fst sub) ''hasOwnProperty'' = None" and "\<not> snd sub"
    and "\<forall>p\<in>set ps. fst p \<noteq> ''__proto__''"
  shows "watch_keys sub ps ((a, fa), (b, fb)) =
     Inr ((fold (\<lambda>p. AList.update (fst p) (snd p)) ps a, fa),
          (fold (\<lambda>p t. if map_of (fst sub) (fst p) = None
                        then AList.update (fst p) (snd p) t else t) ps b, fb))"
  using assms(3)
proof (induction ps arbitrary: a b)
  case Nil
  then show ?case by simp
next
  case (Cons p ps)
  then show ?case
    by (simp add: hasOwnProperty_ordinary [OF assms(1,2)] set_query_prop_ordinary)
qed

lemma watch_contexts_ordinary:
  assumes "map_of (fst sub) ''hasOwnProperty'' = None" and "\<not> snd sub"
    and "\<forall>c\<in>set cs. \<forall>p\<in>set (Object_entries (snd c)). fst p \<noteq> ''__proto__''"
  shows "watch_contexts sub cs ((a, fa), (b, fb)) =
     Inr ((fold (\<lambda>p. AList.update (fst p) (snd p))
             (concat (map (\<lambda>c. Object_entries (snd c)) cs)) a, fa),
          (fold (\<lambda>p t. if map_of (fst sub) (fst p) = None
                        then AList.update (fst p) (snd p) t else t)
             (concat (map (\<lambda>c. Object_entries (snd c)) cs)) b, fb))"
  using assms(3)
proof (induction cs arbitrary: a b)
  case Nil
  then show ?case by simp
next
  case (Cons c cs)
  from Cons.prems have "\<forall>p\<in>set (Object_entries (snd c)). fst p \<noteq> ''__proto__''" by simp
  from watch_keys_ordinary [OF assms(1,2) this] Cons.IH Cons.prems
  show ?case by simp
qed

lemma unwatched_keys_ordinary:
  assumes "map_of (fst watching) ''hasOwnProperty'' = None" and "\<not> snd watching"
    and "\<forall>p\<in>set ps. fst p \<noteq> ''__proto__''"
  shows "unwatched_keys watching ps (b, fb) =
     Inr (fold (\<lambda>p t. if map_of (fst watching) (fst p) = None
                       then AList.update (fst p) (snd p) t else t) ps b, fb)"
  using assms(3)
proof (induction ps arbitrary: b)
  case Nil
  then show ?case by simp
next
  case (Cons p ps)
  then show ?case
    by (simp add: hasOwnProperty_ordinary [OF assms(1,2)] set_query_prop_ordinary)
qed

text \<open>What \<open>ordinary_keys\<close> says of the maps.\<close>

lemma ordinary_keysD:
  assumes "ordinary_keys m"
  shows "\<not> subscribedNullProto m"
    and "map_of (subscribedQueryKeys m) ''hasOwnProperty'' = None"
    and "\<forall>p\<in>set (Object_entries (subscribedQueryKeys m)). fst p \<noteq> ''__proto__''"
    and "\<forall>c\<in>set (Object_entries (watchedQueryKeysByContextId m)).
           \<forall>p\<in>set (Object_entries (snd c)). ordinary_key (fst p)"
proof -
  from assms show "\<not> subscribedNullProto m" by (simp add: ordinary_keys_def)
  from assms have s: "\<forall>k\<in>set (Object_keys (subscribedQueryKeys m)). ordinary_key k"
    by (simp add: ordinary_keys_def list_all_iff)
  then have "''hasOwnProperty'' \<notin> set (Object_keys (subscribedQueryKeys m))"
    by (auto simp add: ordinary_key_def)
  then show "map_of (subscribedQueryKeys m) ''hasOwnProperty'' = None"
    by (simp add: set_Object_keys domIff)
  from s show "\<forall>p\<in>set (Object_entries (subscribedQueryKeys m)). fst p \<noteq> ''__proto__''"
    by (auto simp add: Object_keys_def ordinary_key_def)
  from assms show "\<forall>c\<in>set (Object_entries (watchedQueryKeysByContextId m)).
           \<forall>p\<in>set (Object_entries (snd c)). ordinary_key (fst p)"
    by (simp add: ordinary_keys_def list_all_iff Object_keys_def)
qed

text \<open>
  The three loops on ordinary keys: no \<open>TypeError\<close>, \<open>keysBeingWatched\<close> has the keys the
  contexts watch, each with a query some context watches under it, \<open>toSubscribe\<close> is
  \<open>keysBeingWatched\<close> without the subscribed keys, and \<open>toUnsubscribe\<close> is
  \<open>subscribedQueryKeys\<close> without the keys being watched.
\<close>

lemma reconcile_ordinary:
  assumes "ordinary_keys m"
  shows "\<exists>K TS TU. reconcile m = Inr (K, TS, TU)
     \<and> dom (map_of K)
         = (\<Union>c \<in> set (Object_entries (watchedQueryKeysByContextId m)). set (Object_keys (snd c)))
     \<and> (\<forall>k q. map_of K k = Some q \<longrightarrow>
           (\<exists>c \<in> set (Object_entries (watchedQueryKeysByContextId m)).
              (k, q) \<in> set (Object_entries (snd c))))
     \<and> (\<forall>k. map_of TS k = (if map_of (subscribedQueryKeys m) k = None then map_of K k else None))
     \<and> (\<forall>k. map_of TU k = (if map_of K k = None then map_of (subscribedQueryKeys m) k else None))"
proof -
  let ?E = "concat (map (\<lambda>c. Object_entries (snd c))
                     (Object_entries (watchedQueryKeysByContextId m)))"
  let ?K = "fold (\<lambda>p. AList.update (fst p) (snd p)) ?E []"
  let ?TS = "fold (\<lambda>p t. if map_of (subscribedQueryKeys m) (fst p) = None
                         then AList.update (fst p) (snd p) t else t) ?E []"
  let ?TU = "fold (\<lambda>p t. if map_of ?K (fst p) = None
                         then AList.update (fst p) (snd p) t else t)
               (Object_entries (subscribedQueryKeys m)) []"
  note o = ordinary_keysD [OF assms]
  have w: "\<forall>c\<in>set (Object_entries (watchedQueryKeysByContextId m)).
           \<forall>p\<in>set (Object_entries (snd c)). fst p \<noteq> ''__proto__''"
    using o(4) by (auto simp add: ordinary_key_def)
  have wp: "watch_pass m = Inr ((?K, False), (?TS, False))"
    using watch_contexts_ordinary [of "(subscribedQueryKeys m, subscribedNullProto m)"
        "Object_entries (watchedQueryKeysByContextId m)" "[]" False "[]" False] o(1,2) w
    by (simp add: watch_pass_def)
  have domK: "dom (map_of ?K)
         = (\<Union>c \<in> set (Object_entries (watchedQueryKeysByContextId m)). set (Object_keys (snd c)))"
    by (auto simp add: upd_fold_dom Object_keys_def)
  have "\<forall>k\<in>dom (map_of ?K). ordinary_key k"
    unfolding domK using o(4) by (fastforce simp add: Object_keys_def)
  then have "''hasOwnProperty'' \<notin> dom (map_of ?K)"
    by (auto simp add: ordinary_key_def)
  then have h: "map_of ?K ''hasOwnProperty'' = None" by (simp add: domIff)
  have uk: "unwatched_keys (?K, False) (Object_entries (subscribedQueryKeys m)) ([], False)
              = Inr (?TU, False)"
    using unwatched_keys_ordinary [of "(?K, False)" "Object_entries (subscribedQueryKeys m)"
        "[]" False] h o(3)
    by simp
  have r: "reconcile m = Inr (?K, ?TS, ?TU)"
    by (simp add: reconcile_def wp uk)
  have someK: "\<forall>k q. map_of ?K k = Some q \<longrightarrow>
           (\<exists>c \<in> set (Object_entries (watchedQueryKeysByContextId m)).
              (k, q) \<in> set (Object_entries (snd c)))"
  proof (intro allI impI)
    fix k q
    assume "map_of ?K k = Some q"
    from upd_fold_Some [OF this] have "(k, q) \<in> set ?E" by simp
    then show "\<exists>c \<in> set (Object_entries (watchedQueryKeysByContextId m)).
              (k, q) \<in> set (Object_entries (snd c))" by auto
  qed
  have ts: "\<forall>k. map_of ?TS k = (if map_of (subscribedQueryKeys m) k = None then map_of ?K k else None)"
    by (simp add: cond_fold_map_of)
  have d: "distinct (map fst (Object_entries (subscribedQueryKeys m)))"
    using distinct_Object_keys [of "subscribedQueryKeys m"] by (simp add: Object_keys_def)
  have tu: "\<forall>k. map_of ?TU k = (if map_of ?K k = None then map_of (subscribedQueryKeys m) k else None)"
    by (simp add: cond_fold_map_of upd_fold_map_of map_of_rev_distinct [OF d]
        map_of_Object_entries)
  from r domK someK ts tu show ?thesis by blast
qed


subsection \<open>The outcome of \<open>updateSubscriptions\<close>\<close>

lemma reconcile_pending: "reconcile (m\<lparr>pendingSubscriptionUpdate := b\<rparr>) = reconcile m"
  by (simp add: reconcile_def watch_pass_def cong: sum.case_cong)

lemma reconcile_locals:
  "reconcile m = Inr r \<Longrightarrow> r = (keysBeingWatched m, toSubscribe m, toUnsubscribe m)"
  by (simp add: keysBeingWatched_def toSubscribe_def toUnsubscribe_def)

lemma reconcile_returns:
  assumes "ordinary_keys m"
  shows "reconcile m = Inr (keysBeingWatched m, toSubscribe m, toUnsubscribe m)"
proof -
  from reconcile_ordinary [OF assms] obtain r where "reconcile m = Inr r" by blast
  then show ?thesis using reconcile_locals [of m r] by simp
qed

lemma keys_keysBeingWatched:
  assumes "ordinary_keys m"
  shows "set (Object_keys (keysBeingWatched m))
     = (\<Union>c \<in> set (Object_entries (watchedQueryKeysByContextId m)). set (Object_keys (snd c)))"
  using reconcile_ordinary [OF assms] reconcile_returns [OF assms]
  by (auto simp add: set_Object_keys)

lemma entries_keysBeingWatched:
  assumes "ordinary_keys m"
  shows "set (Object_entries (keysBeingWatched m))
     \<subseteq> (\<Union>c \<in> set (Object_entries (watchedQueryKeysByContextId m)). set (Object_entries (snd c)))"
proof
  fix p
  assume "p \<in> set (Object_entries (keysBeingWatched m))"
  then have "(fst p, snd p) \<in> set (Object_entries (keysBeingWatched m))" by simp
  then have q: "map_of (keysBeingWatched m) (fst p) = Some (snd p)"
    by (simp only: Object_entries_iff)
  from reconcile_ordinary [OF assms] obtain K TS TU
    where r: "reconcile m = Inr (K, TS, TU)"
      and s: "\<forall>k q. map_of K k = Some q \<longrightarrow>
           (\<exists>c \<in> set (Object_entries (watchedQueryKeysByContextId m)).
              (k, q) \<in> set (Object_entries (snd c)))"
    by blast
  from r have "K = keysBeingWatched m" by (simp add: keysBeingWatched_def)
  with q have "map_of K (fst p) = Some (snd p)" by simp
  with s have "\<exists>c \<in> set (Object_entries (watchedQueryKeysByContextId m)).
          (fst p, snd p) \<in> set (Object_entries (snd c))"
    by blast
  then show "p \<in> (\<Union>c \<in> set (Object_entries (watchedQueryKeysByContextId m)).
                    set (Object_entries (snd c)))"
    by simp
qed

lemma map_of_toSubscribe:
  assumes "ordinary_keys m"
  shows "map_of (toSubscribe m) k
     = (if map_of (subscribedQueryKeys m) k = None then map_of (keysBeingWatched m) k else None)"
  using reconcile_ordinary [OF assms] reconcile_returns [OF assms] by auto

lemma map_of_toUnsubscribe:
  assumes "ordinary_keys m"
  shows "map_of (toUnsubscribe m) k
     = (if map_of (keysBeingWatched m) k = None then map_of (subscribedQueryKeys m) k else None)"
  using reconcile_ordinary [OF assms] reconcile_returns [OF assms] by auto

lemma keys_toSubscribe:
  assumes "ordinary_keys m"
  shows "set (Object_keys (toSubscribe m))
     = set (Object_keys (keysBeingWatched m)) - set (Object_keys (subscribedQueryKeys m))"
  by (auto simp add: set_Object_keys domIff map_of_toSubscribe [OF assms] split: if_splits)

lemma entries_toSubscribe:
  assumes "ordinary_keys m"
  shows "set (Object_entries (toSubscribe m)) \<subseteq> set (Object_entries (keysBeingWatched m))"
  by (auto simp add: Object_entries_iff map_of_toSubscribe [OF assms] split: if_splits)

lemma keys_toUnsubscribe:
  assumes "ordinary_keys m"
  shows "set (Object_keys (toUnsubscribe m))
     = set (Object_keys (subscribedQueryKeys m)) - set (Object_keys (keysBeingWatched m))"
  by (auto simp add: set_Object_keys domIff map_of_toUnsubscribe [OF assms] split: if_splits)

lemma entries_toUnsubscribe:
  assumes "ordinary_keys m"
  shows "set (Object_entries (toUnsubscribe m)) \<subseteq> set (Object_entries (subscribedQueryKeys m))"
  by (auto simp add: Object_entries_iff map_of_toUnsubscribe [OF assms] split: if_splits)

lemma ordinary_keysBeingWatched:
  assumes "ordinary_keys m"
  shows "\<forall>k\<in>set (Object_keys (keysBeingWatched m)). ordinary_key k"
  unfolding keys_keysBeingWatched [OF assms]
  using ordinary_keysD(4) [OF assms] by (fastforce simp add: Object_keys_def)

lemma map_of_remove_fold:
  "map_of (fold (\<lambda>k s. delete_prop s k) ks s) k = (if k \<in> set ks then None else map_of s k)"
  by (induction ks arbitrary: s) (simp_all add: map_of_delete_prop)

lemma map_of_remove_subscribed:
  "map_of (remove_subscribed toUnsub s) k =
     (if map_of toUnsub k \<noteq> None then None else map_of s k)"
  by (auto simp add: remove_subscribed_def map_of_remove_fold set_Object_keys domIff)

lemma add_fold_ordinary:
  "\<forall>p\<in>set ps. fst p \<noteq> ''__proto__'' \<Longrightarrow>
   fold (\<lambda>p s. set_query_prop s (fst p) (snd p)) ps (s, f)
     = (fold (\<lambda>p. AList.update (fst p) (snd p)) ps s, f)"
  by (induction ps arbitrary: s) (simp_all add: set_query_prop_ordinary)

lemma add_subscribed_ordinary:
  assumes "\<forall>k\<in>set (Object_keys toSub). k \<noteq> ''__proto__''"
  shows "snd (add_subscribed toSub (s, f)) = f"
    and "map_of (fst (add_subscribed toSub (s, f))) = map_of s ++ map_of toSub"
proof -
  have d: "distinct (map fst (Object_entries toSub))"
    using distinct_Object_keys [of toSub] by (simp add: Object_keys_def)
  have a: "add_subscribed toSub (s, f)
             = (fold (\<lambda>p. AList.update (fst p) (snd p)) (Object_entries toSub) s, f)"
    unfolding add_subscribed_def using assms
    by (intro add_fold_ordinary) (simp add: Object_keys_def)
  show "snd (add_subscribed toSub (s, f)) = f" by (simp add: a)
  show "map_of (fst (add_subscribed toSub (s, f))) = map_of s ++ map_of toSub"
    by (simp add: a upd_fold_map_of map_of_rev_distinct [OF d] map_of_Object_entries)
qed

lemma remove_subscribed_Nil: "remove_subscribed [] s = s"
  by (simp add: remove_subscribed_def Object_keys_Nil)

lemma add_subscribed_Nil: "add_subscribed [] s = s"
  by (simp add: add_subscribed_def Object_entries_def)

text \<open>What no run of \<open>updateSubscriptions\<close> touches, and the flag, which every run clears.\<close>

lemma updateSubscriptions_pending:
  "\<not> pendingSubscriptionUpdate (this (snd (updateSubscriptions cfg w)))"
  "deferred (snd (updateSubscriptions cfg w)) = deferred w"
  by (simp_all add: updateSubscriptions_def Let_def split: sum.splits option.splits)

lemma updateSubscriptions_frame:
  "watchedQueryKeysByContextId (this (snd (updateSubscriptions cfg w)))
     = watchedQueryKeysByContextId (this w)"
  "watchedContexts (this (snd (updateSubscriptions cfg w))) = watchedContexts (this w)"
  "manager_id (this (snd (updateSubscriptions cfg w))) = manager_id (this w)"
  "contexts (snd (updateSubscriptions cfg w)) = contexts w"
  by (simp_all add: updateSubscriptions_def Let_def split: sum.splits option.splits)

lemma updateSubscriptions_type_error:
  "reconcile (this w) = Inl e \<Longrightarrow>
   updateSubscriptions cfg w = (Some e, w\<lparr>this := (this w)\<lparr>pendingSubscriptionUpdate := False\<rparr>\<rparr>)"
  by (simp add: updateSubscriptions_def reconcile_pending)

lemma updateSubscriptions_throws:
  assumes "unsubscribe_throws cfg w"
  shows "updateSubscriptions cfg w =
     (cfg_unsubscribe cfg (map snd (Object_entries (toUnsubscribe (this w)))),
      w\<lparr>this := (this w)\<lparr>pendingSubscriptionUpdate := False,
                 subscribedQueryKeys := remove_subscribed (toUnsubscribe (this w))
                                          (subscribedQueryKeys (this w))\<rparr>,
        calls := calls w @ [UnsubscribeCall (map snd (Object_entries (toUnsubscribe (this w))))]\<rparr>)"
proof (cases "reconcile (this w)")
  case (Inl e)
  then have "toUnsubscribe (this w) = []" by (simp add: toUnsubscribe_def)
  with assms show ?thesis by (simp add: unsubscribe_throws_def)
next
  case (Inr r)
  from reconcile_locals [OF this] Inr
  have r: "reconcile (this w)
             = Inr (keysBeingWatched (this w), toSubscribe (this w), toUnsubscribe (this w))"
    by simp
  from assms show ?thesis
    by (auto simp add: unsubscribe_throws_def updateSubscriptions_def Let_def reconcile_pending r
        Object_entries_empty)
qed

lemma updateSubscriptions_returns:
  assumes "reconcile (this w) = Inr r" and "\<not> unsubscribe_throws cfg w"
  shows "updateSubscriptions cfg w =
     ((if toSubscribe (this w) = [] then None
       else cfg_subscribe cfg (map snd (Object_entries (toSubscribe (this w))))),
      w\<lparr>this := (this w)\<lparr>pendingSubscriptionUpdate := False,
                 subscribedQueryKeys :=
                   fst (add_subscribed (toSubscribe (this w))
                          (remove_subscribed (toUnsubscribe (this w)) (subscribedQueryKeys (this w)),
                           subscribedNullProto (this w))),
                 subscribedNullProto :=
                   snd (add_subscribed (toSubscribe (this w))
                          (remove_subscribed (toUnsubscribe (this w)) (subscribedQueryKeys (this w)),
                           subscribedNullProto (this w)))\<rparr>,
        calls := calls w
          @ (if toUnsubscribe (this w) = [] then []
             else [UnsubscribeCall (map snd (Object_entries (toUnsubscribe (this w))))])
          @ (if toSubscribe (this w) = [] then []
             else [SubscribeCall (map snd (Object_entries (toSubscribe (this w))))])\<rparr>)"
proof -
  from reconcile_locals [OF assms(1)] assms(1)
  have r: "reconcile (this w)
             = Inr (keysBeingWatched (this w), toSubscribe (this w), toUnsubscribe (this w))"
    by simp
  from assms(2) show ?thesis
    by (auto simp add: unsubscribe_throws_def updateSubscriptions_def Let_def reconcile_pending r
        Object_entries_empty)
qed

text \<open>A run on ordinary keys that \<open>unsubscribe\<close> does not cut short.\<close>

lemma subscribed_after:
  assumes "ordinary_keys (this w)" and "\<not> unsubscribe_throws cfg w"
  shows "map_of (subscribedQueryKeys (this (snd (updateSubscriptions cfg w)))) k
           = (if map_of (keysBeingWatched (this w)) k = None then None
              else (case map_of (subscribedQueryKeys (this w)) k of
                      None \<Rightarrow> map_of (keysBeingWatched (this w)) k
                    | Some v \<Rightarrow> Some v))"
    and "\<not> subscribedNullProto (this (snd (updateSubscriptions cfg w)))"
proof -
  note r = updateSubscriptions_returns [OF reconcile_returns [OF assms(1)] assms(2)]
  have p: "\<forall>k\<in>set (Object_keys (toSubscribe (this w))). k \<noteq> ''__proto__''"
    using ordinary_keysBeingWatched [OF assms(1)]
    by (auto simp add: keys_toSubscribe [OF assms(1)] ordinary_key_def)
  note a = add_subscribed_ordinary [OF p]
  show "\<not> subscribedNullProto (this (snd (updateSubscriptions cfg w)))"
    using ordinary_keysD(1) [OF assms(1)] by (simp add: r a)
  show "map_of (subscribedQueryKeys (this (snd (updateSubscriptions cfg w)))) k
           = (if map_of (keysBeingWatched (this w)) k = None then None
              else (case map_of (subscribedQueryKeys (this w)) k of
                      None \<Rightarrow> map_of (keysBeingWatched (this w)) k
                    | Some v \<Rightarrow> Some v))"
    by (simp add: r a map_add_def map_of_remove_subscribed map_of_toSubscribe [OF assms(1)]
        map_of_toUnsubscribe [OF assms(1)] split: option.splits)
qed

lemma keys_after:
  assumes "ordinary_keys (this w)" and "\<not> unsubscribe_throws cfg w"
  shows "set (Object_keys (subscribedQueryKeys (this (snd (updateSubscriptions cfg w)))))
           = set (Object_keys (keysBeingWatched (this w)))"
  by (auto simp add: set_Object_keys domIff subscribed_after(1) [OF assms]
      split: if_splits option.splits)

lemma ordinary_after:
  assumes "ordinary_keys (this w)" and "\<not> unsubscribe_throws cfg w"
  shows "ordinary_keys (this (snd (updateSubscriptions cfg w)))"
proof -
  have "\<forall>k\<in>set (Object_keys (subscribedQueryKeys (this (snd (updateSubscriptions cfg w))))).
          ordinary_key k"
    using ordinary_keysBeingWatched [OF assms(1)] by (simp only: keys_after [OF assms])
  then show ?thesis
    using assms(1) subscribed_after(2) [OF assms]
    by (simp add: ordinary_keys_def updateSubscriptions_frame list_all_iff)
qed


subsection \<open>Pending flag and deferred callbacks\<close>

lemma schedule_inv:
  "deferred w = (if pendingSubscriptionUpdate (this w) then 1 else 0) \<Longrightarrow>
   deferred (scheduleSubscriptionUpdate cfg w)
     = (if pendingSubscriptionUpdate (this (scheduleSubscriptionUpdate cfg w)) then 1 else 0)"
  by (simp add: scheduleSubscriptionUpdate_def)

lemma registerQuery_frame:
  "pendingSubscriptionUpdate (this (snd (registerQuery cfg w c q))) = pendingSubscriptionUpdate (this w)"
  "deferred (snd (registerQuery cfg w c q)) = deferred w"
  by (simp_all add: registerQuery_def Let_def registerReset_def split: sum.splits)

lemma get_inv:
  assumes "deferred w = (if pendingSubscriptionUpdate (this w) then 1 else 0)"
  shows "deferred (snd (get cfg w q given))
     = (if pendingSubscriptionUpdate (this (snd (get cfg w q given))) then 1 else 0)"
proof -
  let ?w0 = "w\<lparr>calls := calls w @ [GetCall q]\<rparr>"
  have w0: "deferred ?w0 = (if pendingSubscriptionUpdate (this ?w0) then 1 else 0)"
    using assms by simp
  have rq: "deferred (snd (registerQuery cfg ?w0 c q))
      = (if pendingSubscriptionUpdate (this (snd (registerQuery cfg ?w0 c q))) then 1 else 0)" for c
    using w0 by (simp only: registerQuery_frame)
  show ?thesis
  proof (cases "cfg_get cfg q")
    case (Inl e)
    then show ?thesis using w0 by (simp add: get_def)
  next
    case (Inr r)
    show ?thesis
    proof (cases "getContext ?w0 ''get'' given")
      case (Inl e)
      then show ?thesis using Inr w0 by (simp add: get_def)
    next
      case Inr': (Inr oc)
      show ?thesis
      proof (cases oc)
        case None
        then show ?thesis using Inr Inr' w0 by (simp add: get_def)
      next
        case (Some c)
        obtain x w1 where r: "registerQuery cfg ?w0 c q = (x, w1)"
          by (cases "registerQuery cfg ?w0 c q")
        with rq [of c] have w1: "deferred w1 = (if pendingSubscriptionUpdate (this w1) then 1 else 0)"
          by simp
        show ?thesis
        proof (cases x)
          case None
          then show ?thesis
            using Inr Inr' Some r schedule_inv [OF w1, of cfg] by (simp add: get_def)
        next
          case (Some e)
          then show ?thesis
            using Inr Inr' \<open>oc = Some c\<close> r w1 by (simp add: get_def)
        qed
      qed
    qed
  qed
qed

lemma reset_inv:
  "deferred w = (if pendingSubscriptionUpdate (this w) then 1 else 0) \<Longrightarrow>
   deferred (reset cfg w c) = (if pendingSubscriptionUpdate (this (reset cfg w c)) then 1 else 0)"
  unfolding reset_def Let_def by (rule schedule_inv) simp

lemma ctx_reset_fold_inv:
  "deferred w = (if pendingSubscriptionUpdate (this w) then 1 else 0) \<Longrightarrow>
   deferred (fold (\<lambda>cb v. if cb = ManagerReset (manager_id (this v)) then reset cfg v c else v) cbs w)
     = (if pendingSubscriptionUpdate
             (this (fold (\<lambda>cb v. if cb = ManagerReset (manager_id (this v)) then reset cfg v c else v)
                      cbs w))
        then 1 else 0)"
proof (induction cbs arbitrary: w)
  case Nil
  then show ?case by simp
next
  case (Cons cb cbs)
  let ?w = "if cb = ManagerReset (manager_id (this w)) then reset cfg w c else w"
  have "deferred ?w = (if pendingSubscriptionUpdate (this ?w) then 1 else 0)"
    using Cons.prems reset_inv [of w cfg c] by simp
  from Cons.IH [OF this] show ?case by simp
qed

lemma ctx_reset_inv:
  "deferred w = (if pendingSubscriptionUpdate (this w) then 1 else 0) \<Longrightarrow>
   deferred (ctx_reset cfg w c) = (if pendingSubscriptionUpdate (this (ctx_reset cfg w c)) then 1 else 0)"
  using ctx_reset_fold_inv [of w cfg c "resets (contexts w c)"]
  by (simp add: ctx_reset_def Let_def)

lemma run_deferred_inv:
  "deferred w = (if pendingSubscriptionUpdate (this w) then 1 else 0) \<Longrightarrow>
   deferred (snd (run_deferred cfg w))
     = (if pendingSubscriptionUpdate (this (snd (run_deferred cfg w))) then 1 else 0)"
  by (simp add: run_deferred_def updateSubscriptions_pending split: if_splits)

lemma update_loop_frame:
  "this (snd (update_loop t cs w)) = this w \<and> deferred (snd (update_loop t cs w)) = deferred w"
  by (induction t cs w rule: update_loop.induct) (simp_all split: sum.splits option.splits)

lemma updateQueries_inv:
  "deferred w = (if pendingSubscriptionUpdate (this w) then 1 else 0) \<Longrightarrow>
   deferred (snd (updateQueries cfg w prm))
     = (if pendingSubscriptionUpdate (this (snd (updateQueries cfg w prm))) then 1 else 0)"
  by (simp add: updateQueries_def update_loop_frame)

lemma step_inv:
  assumes "deferred w = (if pendingSubscriptionUpdate (this w) then 1 else 0)"
  shows "deferred (step cfg a w) = (if pendingSubscriptionUpdate (this (step cfg a w)) then 1 else 0)"
proof (cases a)
  case (Get q given)
  then show ?thesis using get_inv [OF assms, of cfg q given] by (simp add: step_def)
next
  case (ContextReset c)
  then show ?thesis using ctx_reset_inv [OF assms, of cfg c] by (simp add: step_def)
next
  case RunDeferred
  then show ?thesis using run_deferred_inv [OF assms, of cfg] by (simp add: step_def)
next
  case (UpdateQueries prm)
  then show ?thesis using updateQueries_inv [OF assms, of cfg prm] by (simp add: step_def)
next
  case (SetCurrentContext c)
  then show ?thesis using assms by (simp add: step_def)
next
  case (SetNoGetOutsideContext b)
  then show ?thesis using assms by (simp add: step_def)
qed

lemma run_inv:
  "deferred w = (if pendingSubscriptionUpdate (this w) then 1 else 0) \<Longrightarrow>
   deferred (run cfg acts w) = (if pendingSubscriptionUpdate (this (run cfg acts w)) then 1 else 0)"
proof (induction acts arbitrary: w)
  case Nil
  then show ?case by (simp add: run_def)
next
  case (Cons a acts)
  from Cons.IH [OF step_inv [OF Cons.prems, of cfg a]] show ?case by (simp add: run_def)
qed


subsection \<open>The runs of the prop-change example\<close>

lemma clearjunk_single: "AList.clearjunk [p] = [p]"
  by (simp add: AList.delete_eq)

lemma Object_entries_single: "Object_entries [p] = [p]"
  by (cases "is_array_index (fst p)") (simp_all add: Object_entries_def clearjunk_single)

lemma Object_entries_Nil: "Object_entries ([] :: 'v obj) = []"
  by (simp add: Object_entries_def)

lemma prop_change_reconcile:
  "reconcile (this prop_change_world)
     = Inr ([(''p1b'', JString ''p1b'')], [(''p1b'', JString ''p1b'')], [(''p1a'', JString ''p1a'')])"
  by (simp add: prop_change_world_def reconcile_def watch_pass_def Object_entries_single
      hasOwnProperty_def set_query_prop_def)

lemma prop_change_sets:
  "keysBeingWatched (this prop_change_world) = [(''p1b'', JString ''p1b'')]"
  "toSubscribe (this prop_change_world) = [(''p1b'', JString ''p1b'')]"
  "toUnsubscribe (this prop_change_world) = [(''p1a'', JString ''p1a'')]"
  by (simp_all add: keysBeingWatched_def toSubscribe_def toUnsubscribe_def prop_change_reconcile)

lemma prop_change_ordinary: "ordinary_keys (this prop_change_world)"
  by (simp add: ordinary_keys_def ordinary_key_def prop_change_world_def Object_keys_def
      Object_entries_single)

lemma prop_change_fields:
  "subscribedQueryKeys (this prop_change_world) = [(''p1a'', JString ''p1a'')]"
  "watchedQueryKeysByContextId (this prop_change_world) = [(''1'', [(''p1b'', JString ''p1b'')])]"
  "calls prop_change_world = []"
  by (simp_all add: prop_change_world_def)

lemma prop_change_returns: "\<not> unsubscribe_throws test_config prop_change_world"
  by (simp add: unsubscribe_throws_def test_config_def)

lemma prop_change_run:
  "updateSubscriptions test_config prop_change_world =
     (None,
      prop_change_world
        \<lparr>this := (this prop_change_world)
           \<lparr>pendingSubscriptionUpdate := False,
            subscribedQueryKeys := [(''p1b'', JString ''p1b'')]\<rparr>,
         calls := [UnsubscribeCall [JString ''p1a''], SubscribeCall [JString ''p1b'']]\<rparr>)"
  by (simp add: updateSubscriptions_returns [OF prop_change_reconcile prop_change_returns]
      prop_change_sets Object_entries_single remove_subscribed_def add_subscribed_def
      Object_keys_def set_query_prop_def delete_prop_def AList.delete_eq)
     (simp add: prop_change_world_def test_config_def)


lemma prop_change_throws:
  "unsubscribe_throws throwing_config prop_change_world"
  "unsubscribe_throws failing_unsubscribe_config prop_change_world"
  by (simp_all add: unsubscribe_throws_def throwing_config_def failing_unsubscribe_config_def
      prop_change_sets)

lemma prop_change_run_throws:
  "updateSubscriptions throwing_config prop_change_world =
     (Some (Thrown ''unsubscribe''),
      prop_change_world
        \<lparr>this := (this prop_change_world)
           \<lparr>pendingSubscriptionUpdate := False, subscribedQueryKeys := []\<rparr>,
         calls := [UnsubscribeCall [JString ''p1a'']]\<rparr>)"
  by (simp add: updateSubscriptions_throws [OF prop_change_throws(1)] prop_change_sets
      Object_entries_single remove_subscribed_def Object_keys_def
      delete_prop_def AList.delete_eq)
     (simp add: prop_change_world_def throwing_config_def)

lemma prop_change_run_fails:
  "updateSubscriptions failing_unsubscribe_config prop_change_world =
     (Some (Thrown ''unsubscribe''),
      prop_change_world
        \<lparr>this := (this prop_change_world)
           \<lparr>pendingSubscriptionUpdate := False, subscribedQueryKeys := []\<rparr>,
         calls := [UnsubscribeCall [JString ''p1a'']]\<rparr>)"
  by (simp add: updateSubscriptions_throws [OF prop_change_throws(2)] prop_change_sets
      Object_entries_single remove_subscribed_def Object_keys_def
      delete_prop_def AList.delete_eq)
     (simp add: prop_change_world_def failing_unsubscribe_config_def)

lemma prop_change_ctx:
  "ctx_id (contexts prop_change_world 0) = ''1''"
  "resets (contexts prop_change_world 0) = [ManagerReset ''1'']"
  "get_prop (watchedQueryKeysByContextId (this prop_change_world)) ''1''
     = Some [(''p1b'', JString ''p1b'')]"
  by (simp_all add: prop_change_world_def test_store_ids get_prop_def)

lemma ambient_ctx:
  "ctx_id (contexts ambient_world 0) = ''1''"
  "resets (contexts ambient_world 0) = []"
  "get_prop (watchedQueryKeysByContextId (this ambient_world)) ''1'' = None"
  "manager_id (this ambient_world) = ''1''"
  by (simp_all add: ambient_world_def test_defs test_store_ids test_store_resets get_prop_def)

lemma cut_short_fields:
  "subscribedQueryKeys (this (snd (updateSubscriptions failing_unsubscribe_config prop_change_world)))
     = []"
  "watchedQueryKeysByContextId
     (this (snd (updateSubscriptions failing_unsubscribe_config prop_change_world)))
     = [(''1'', [(''p1b'', JString ''p1b'')])]"
  "subscribedNullProto (this (snd (updateSubscriptions failing_unsubscribe_config prop_change_world)))
     = False"
  "calls (snd (updateSubscriptions failing_unsubscribe_config prop_change_world))
     = [UnsubscribeCall [JString ''p1a'']]"
  by (simp_all add: prop_change_run_fails prop_change_fields)
     (simp add: prop_change_world_def)

lemma cut_short_reconcile:
  "reconcile (this (snd (updateSubscriptions failing_unsubscribe_config prop_change_world)))
     = Inr ([(''p1b'', JString ''p1b'')], [(''p1b'', JString ''p1b'')], [])"
  by (simp add: reconcile_def watch_pass_def cut_short_fields Object_entries_single
      Object_entries_Nil hasOwnProperty_def set_query_prop_def)

lemma cut_short_sets:
  "toUnsubscribe (this (snd (updateSubscriptions failing_unsubscribe_config prop_change_world))) = []"
  "toSubscribe (this (snd (updateSubscriptions failing_unsubscribe_config prop_change_world)))
     = [(''p1b'', JString ''p1b'')]"
  by (simp_all add: toSubscribe_def toUnsubscribe_def cut_short_reconcile)

section \<open>Key derivation\<close>

text \<open>
  C7. The default key derivation returns the query itself when it is a string, the empty
  string when it is \<open>undefined\<close>, the \<open>key\<close> attribute when that is a string, and
  otherwise the result of the query's own \<open>toString\<close>; it fails when none of these
  apply: for an object without a string \<open>key\<close> and without an own \<open>toString\<close>, for a truthy
  primitive that is not a string, and for every falsy query other than \<open>undefined\<close> and
  the empty string.
\<close>

theorem defaultQueryToString_cases:
  "defaultQueryToString (JString s) = Inr s
   \<and> defaultQueryToString JUndefined = Inr []
   \<and> defaultQueryToString (JObject (JString k) ts) = Inr k
   \<and> ((\<forall>k'. kv \<noteq> JString k') \<longrightarrow> defaultQueryToString (JObject kv (Some str)) = Inr str)
   \<and> ((\<forall>k'. kv \<noteq> JString k') \<longrightarrow> defaultQueryToString (JObject kv None) = Inl NoStringForm)
   \<and> (truthy q \<and> (\<forall>s'. q \<noteq> JString s') \<and> (\<forall>k' ts'. q \<noteq> JObject k' ts')
        \<longrightarrow> defaultQueryToString q = Inl NoStringForm)
   \<and> (\<not> truthy q' \<and> q' \<noteq> JUndefined \<and> (\<forall>s'. q' \<noteq> JString s')
        \<longrightarrow> defaultQueryToString q' = Inl FalseyQuery)"
proof -
  have obj: "(\<forall>k'. kv \<noteq> JString k') \<Longrightarrow>
      defaultQueryToString (JObject kv ts') =
        (case ts' of Some x \<Rightarrow> Inr x | None \<Rightarrow> Inl NoStringForm)" for ts'
    by (cases kv) (simp_all add: defaultQueryToString_def)
  have prim: "truthy q \<Longrightarrow> (\<forall>s'. q \<noteq> JString s') \<Longrightarrow> (\<forall>k' ts'. q \<noteq> JObject k' ts')
      \<Longrightarrow> defaultQueryToString q = Inl NoStringForm"
    by (cases q) (simp_all add: defaultQueryToString_def)
  have falsy: "\<not> truthy q' \<Longrightarrow> q' \<noteq> JUndefined \<Longrightarrow> (\<forall>s'. q' \<noteq> JString s')
      \<Longrightarrow> defaultQueryToString q' = Inl FalseyQuery"
    by (cases q') (simp_all add: defaultQueryToString_def)
  show ?thesis
    using obj prim falsy by (simp add: defaultQueryToString_def)
qed

theorem defaultQueryToString_cases_witness:
  "defaultQueryToString (JString ''p1a'') = Inr ''p1a''
   \<and> defaultQueryToString JUndefined = Inr []
   \<and> defaultQueryToString (JObject (JString ''k'') None) = Inr ''k''
   \<and> (\<forall>k'. JNumber 7 \<noteq> JString k')
   \<and> defaultQueryToString (JObject (JNumber 7) (Some ''seven'')) = Inr ''seven''
   \<and> defaultQueryToString (JObject (JNumber 7) None) = Inl NoStringForm
   \<and> truthy (JNumber 5) \<and> defaultQueryToString (JNumber 5) = Inl NoStringForm
   \<and> \<not> truthy JNull \<and> defaultQueryToString JNull = Inl FalseyQuery"
  using defaultQueryToString_cases
    [of "''p1a''" "''k''" None "JNumber 7" "''seven''" "JNumber 5" JNull]
  by simp

section \<open>\<open>get\<close>\<close>

text \<open>
  C3, as the spec states it: with \<open>noGetOutsideContext\<close> set, no current context and no
  context argument, \<open>get\<close> fails before it invokes the configured getter. The source calls
  \<open>config.get\<close> in its first statement ("This intentionally happens after config.get"),
  so the getter has been called when \<open>get\<close> throws, and when the getter itself throws,
  \<open>get\<close> throws the getter's error. In the test world: the getter that returns 123 is
  called and \<open>get\<close> throws the misuse error; the getter that throws makes \<open>get\<close> throw
  \<open>Thrown ''get''\<close>.
\<close>

theorem get_outside_context_counterexample:
  "noGetOutsideContext test_world \<and> currentContext test_world = None
   \<and> calls test_world = []
   \<and> get test_config test_world (JString ''testQuery'') None
       = (Inl (OutsideContext ''get''), test_world\<lparr>calls := [GetCall (JString ''testQuery'')]\<rparr>)
   \<and> fst (get throwing_config test_world (JString ''testQuery'') None) = Inl (Thrown ''get'')"
  by (simp add: test_defs get_def getContext_def getCurrentContext_def)

text \<open>
  C3, amended: with \<open>noGetOutsideContext\<close> set, no current context and no context
  argument, \<open>get\<close> calls the configured getter once and then fails: with the getter's
  error when the getter throws, with the misuse error otherwise. Nothing but the record
  of that call changes; the manager's state is as before.
\<close>

theorem get_outside_context:
  assumes "noGetOutsideContext w" and "currentContext w = None"
  shows "get cfg w q None =
           ((case cfg_get cfg q of Inl e \<Rightarrow> Inl e | Inr r \<Rightarrow> Inl (OutsideContext ''get'')),
            w\<lparr>calls := calls w @ [GetCall q]\<rparr>)
         \<and> this (snd (get cfg w q None)) = this w"
  using assms
  by (simp add: get_def getContext_def getCurrentContext_def split: sum.splits)

theorem get_outside_context_witness:
  "noGetOutsideContext test_world \<and> currentContext test_world = None
   \<and> get test_config test_world JUndefined None
       = (Inl (OutsideContext ''get''),
          test_world\<lparr>calls := calls test_world @ [GetCall JUndefined]\<rparr>)
   \<and> this (snd (get test_config test_world JUndefined None)) = this test_world"
proof -
  have a: "noGetOutsideContext test_world" and b: "currentContext test_world = None"
    by (simp_all add: test_world_def new_world_def)
  show ?thesis
    using a b get_outside_context [OF a b, of test_config JUndefined]
    by (simp add: test_config_def)
qed

text \<open>
  C10. A context passed to \<open>get\<close> is the one \<open>getContext\<close> returns, whatever the current
  context and the flag are, so \<open>getContext\<close> does not throw. Any error \<open>get\<close> then throws
  is the getter's or the codec's; on success the context recorded under the id of the
  given context is the given one; and the result of \<open>get\<close> does not depend on the current
  context or on \<open>noGetOutsideContext\<close>.
\<close>

theorem get_explicit_context:
  "getContext w name (Some c) = Inr (Some c)
   \<and> (fst (get cfg w q (Some c)) = Inl e \<longrightarrow> cfg_get cfg q = Inl e \<or> queryToString cfg q = Inl e)
   \<and> (fst (get cfg w q (Some c)) = Inr r \<longrightarrow>
        get_prop (watchedContexts (this (snd (get cfg w q (Some c))))) (ctx_id (contexts w c))
          = Some c)
   \<and> get cfg (w\<lparr>currentContext := a, noGetOutsideContext := b\<rparr>) q (Some c)
       = (fst (get cfg w q (Some c)),
          (snd (get cfg w q (Some c)))\<lparr>currentContext := a, noGetOutsideContext := b\<rparr>)"
  by (auto simp add: get_def getContext_def registerQuery_def registerReset_def
      scheduleSubscriptionUpdate_def get_prop_set_prop Let_def split: sum.splits option.splits)

theorem get_explicit_context_witness:
  "currentContext ambient_world = Some 1 \<and> noGetOutsideContext ambient_world
   \<and> fst (get test_config ambient_world (JString ''p1a'') (Some 0)) = Inr 123
   \<and> get_prop (watchedContexts
         (this (snd (get test_config ambient_world (JString ''p1a'') (Some 0)))))
        (ctx_id (contexts ambient_world 0)) = Some 0
   \<and> fst (get test_config ambient_world JNull (Some 0)) = Inl FalseyQuery
   \<and> queryToString test_config JNull = Inl FalseyQuery"
proof -
  have a: "fst (get test_config ambient_world (JString ''p1a'') (Some 0)) = Inr 123"
    and b: "fst (get test_config ambient_world JNull (Some 0)) = Inl FalseyQuery"
    by (simp_all add: get_p1a get_null)
  have c: "cfg_get test_config JNull \<noteq> Inl FalseyQuery"
    by (simp add: test_config_def)
  have d: "currentContext ambient_world = Some 1 \<and> noGetOutsideContext ambient_world"
    by (simp add: ambient_world_def test_defs)
  show ?thesis
    using a b c d
      get_explicit_context [where w = ambient_world and c = 0 and cfg = test_config
        and q = "JString ''p1a''" and r = 123]
      get_explicit_context [where w = ambient_world and c = 0 and cfg = test_config
        and q = JNull and e = FalseyQuery]
    by simp
qed

section \<open>Scheduling\<close>

text \<open>
  C5. \<open>scheduleSubscriptionUpdate\<close> changes nothing when a reconciliation is pending;
  otherwise it sets the flag and calls the deferral function once, handing it one
  callback. In every world a manager reaches from its construction, the number of
  callbacks handed over and not yet run is one when the flag is set and zero when it is
  not: at most one is outstanding, and the flag is set exactly while one is. A run of
  \<open>updateSubscriptions\<close> leaves the flag cleared whatever the callbacks do, so after a run
  that threw the next \<open>scheduleSubscriptionUpdate\<close> calls the deferral function again.
\<close>

theorem schedule_at_most_once:
  "(pendingSubscriptionUpdate (this w) \<longrightarrow> scheduleSubscriptionUpdate cfg w = w)
   \<and> (\<not> pendingSubscriptionUpdate (this w) \<longrightarrow>
        scheduleSubscriptionUpdate cfg w
          = w\<lparr>this := (this w)\<lparr>pendingSubscriptionUpdate := True\<rparr>,
              deferred := Suc (deferred w),
              calls := calls w @ [DeferCall (if cfg_updateSubscription cfg then UpdateSubscription
                                             else RequestAnimationFrame)]\<rparr>)
   \<and> deferred (run cfg acts (new_world i store))
        = (if pendingSubscriptionUpdate (this (run cfg acts (new_world i store))) then 1 else 0)
   \<and> \<not> pendingSubscriptionUpdate (this (snd (updateSubscriptions cfg w)))
   \<and> calls (scheduleSubscriptionUpdate cfg (snd (updateSubscriptions cfg w)))
        = calls (snd (updateSubscriptions cfg w))
          @ [DeferCall (if cfg_updateSubscription cfg then UpdateSubscription
                        else RequestAnimationFrame)]"
proof -
  have "deferred (new_world i store)
          = (if pendingSubscriptionUpdate (this (new_world i store)) then 1 else 0)"
    by (simp add: new_world_def new_manager_def)
  from run_inv [OF this, of cfg acts] show ?thesis
    by (simp add: scheduleSubscriptionUpdate_def updateSubscriptions_pending)
qed

theorem schedule_at_most_once_witness:
  "pendingSubscriptionUpdate (this prop_change_world)
   \<and> scheduleSubscriptionUpdate test_config prop_change_world = prop_change_world
   \<and> \<not> pendingSubscriptionUpdate (this test_world)
   \<and> calls (scheduleSubscriptionUpdate test_config test_world) = [DeferCall UpdateSubscription]
   \<and> deferred (scheduleSubscriptionUpdate test_config test_world) = 1
   \<and> fst (updateSubscriptions throwing_config prop_change_world) = Some (Thrown ''unsubscribe'')
   \<and> \<not> pendingSubscriptionUpdate (this (snd (updateSubscriptions throwing_config prop_change_world)))"
proof -
  have a: "pendingSubscriptionUpdate (this prop_change_world)"
    by (simp add: prop_change_world_def)
  have b: "\<not> pendingSubscriptionUpdate (this test_world)"
    and c: "cfg_updateSubscription test_config" and d: "calls test_world = []"
    and e: "deferred test_world = 0"
    by (simp_all add: test_defs)
  note t1 = schedule_at_most_once [where w = prop_change_world and cfg = test_config,
      THEN conjunct1, rule_format, OF a]
  note t2 = schedule_at_most_once [where w = test_world and cfg = test_config,
      THEN conjunct2, THEN conjunct1, rule_format, OF b]
  note t4 = schedule_at_most_once [where w = prop_change_world and cfg = throwing_config,
      THEN conjunct2, THEN conjunct2, THEN conjunct2, THEN conjunct1]
  have t2a: "calls (scheduleSubscriptionUpdate test_config test_world) = [DeferCall UpdateSubscription]"
    and t2b: "deferred (scheduleSubscriptionUpdate test_config test_world) = 1"
    by (simp_all add: t2 c d e)
  have f: "fst (updateSubscriptions throwing_config prop_change_world) = Some (Thrown ''unsubscribe'')"
    by (simp add: prop_change_run_throws)
  show ?thesis
    using a t1 b t2a t2b f t4 by (intro conjI)
qed


section \<open>\<open>updateQueries\<close>\<close>

text \<open>
  C8 says that \<open>updateQueries\<close> calls \<open>forceUpdate\<close> once on every registered context that
  watches a matching query, and that without an argument every context with a watched
  query matches. \<open>doUpdate\<close> is \<open>!!\<close> of the key that \<open>find\<close> returns, and the key of the
  query \<open>undefined\<close> is the empty string, which is falsy. The world below is the test world
  after the first context has read \<open>undefined\<close>: the context watches one query, the test
  function of the no-argument form accepts it, and \<open>updateQueries()\<close> returns without a
  \<open>forceUpdate\<close>.
\<close>

theorem updateQueries_empty_key:
  "snd (get test_config test_world JUndefined (Some 0)) = empty_key_world
   \<and> Object_keys [([], JUndefined)] = [[]]
   \<and> get_prop (watchedQueryKeysByContextId (this empty_key_world)) ''1'' = Some [([], JUndefined)]
   \<and> get_prop (watchedContexts (this empty_key_world)) ''1'' = Some 0
   \<and> testFn test_config NoParam JUndefined = Inr True
   \<and> updateQueries test_config empty_key_world NoParam = (None, empty_key_world)"
proof -
  have g: "snd (get test_config test_world JUndefined (Some 0)) = empty_key_world"
    by (simp add: empty_key_world_def test_defs get_defs test_store_ids test_store_resets
        Object_keys_Nil get_prop_def set_prop_def set_query_prop_def)
  have u: "updateQueries test_config empty_key_world NoParam = (None, empty_key_world)"
    by (simp add: updateQueries_def empty_key_world_def Object_entries_single testFn_def
        doUpdate_def)
  show ?thesis
    using g u
    by (simp add: Object_keys_def Object_entries_single empty_key_world_def get_prop_def testFn_def)
qed

theorem updateQueries_empty_key_witness:
  "calls (snd (updateQueries test_config empty_key_world NoParam))
     = [GetCall JUndefined, DeferCall UpdateSubscription]"
  using updateQueries_empty_key by (simp add: empty_key_world_def)


end
